theory Spec2Isabelle
  imports Complex_Main
begin

section \<open>Strings, errors and the process environment\<close>

text \<open>
  Go strings are byte sequences; \<open>string\<close> (a list of 8-bit characters) models them.
  \<open>strings.ToLower\<close> and \<open>strings.ToUpper\<close> are modelled on bytes: an ASCII letter
  changes case, every other byte is kept. On inputs with non-ASCII bytes Go maps runes
  through the Unicode tables instead; the result then still contains a non-ASCII byte
  or one of the letters \<open>k\<close> and \<open>i\<close> (the images of U+212A and U+0130), so it
  compares to the all-ASCII words \<open>ready\<close> and \<open>notready\<close> as the byte-wise result does.
\<close>

definition toLower_byte :: "char \<Rightarrow> char" where
  "toLower_byte c =
     (let n = (of_char c :: nat) in if 65 \<le> n \<and> n \<le> 90 then char_of (n + 32) else c)"

definition toUpper_byte :: "char \<Rightarrow> char" where
  "toUpper_byte c =
     (let n = (of_char c :: nat) in if 97 \<le> n \<and> n \<le> 122 then char_of (n - 32) else c)"

definition ToLower :: "string \<Rightarrow> string" where
  "ToLower s = map toLower_byte s"

definition ToUpper :: "string \<Rightarrow> string" where
  "ToUpper s = map toUpper_byte s"

text \<open>
  Errors. An API status error carries the reason that \<open>errors.IsConflict\<close> and
  \<open>errors.IsNotFound\<close> test; \<open>fmt.Errorf("...: %v", err)\<close> flattens the inner error
  into a string, so the result is a plain error that no longer answers to \<open>IsConflict\<close>.
\<close>

datatype reason = NotFound | AlreadyExists | Conflict

datatype error = StatusError reason string | ErrorString string

fun Error_text :: "error \<Rightarrow> string" where
  "Error_text (StatusError r msg) = msg"
| "Error_text (ErrorString msg) = msg"

definition Errorf :: "string \<Rightarrow> error \<Rightarrow> error" where
  "Errorf prefix e = ErrorString (prefix @ Error_text e)"

fun IsConflict :: "error \<Rightarrow> bool" where
  "IsConflict (StatusError r msg) = (r = Conflict)"
| "IsConflict (ErrorString msg) = False"

fun IsNotFound :: "error \<Rightarrow> bool" where
  "IsNotFound (StatusError r msg) = (r = NotFound)"
| "IsNotFound (ErrorString msg) = False"

fun IsAlreadyExists :: "error \<Rightarrow> bool" where
  "IsAlreadyExists (StatusError r msg) = (r = AlreadyExists)"
| "IsAlreadyExists (ErrorString msg) = False"

text \<open>The process environment; \<open>os.Getenv\<close> returns the empty string for an unset variable.\<close>

type_synonym environ = "string \<rightharpoonup> string"

definition Getenv :: "environ \<Rightarrow> string \<Rightarrow> string" where
  "Getenv env k = (case env k of None \<Rightarrow> [] | Some v \<Rightarrow> v)"

section \<open>Command-line flags and their binding to environment variables\<close>

text \<open>
  A pflag flag: its name, whether it has been set, its current value, and the \<open>Set\<close>
  method of its value type. \<open>Set\<close> parses a string, stores a value and returns an error or
  nil; the value types used here store the result of the parse also when they return
  the error. \<open>SetValue\<close> takes the string and the current value and gives the value stored
  and the error.
\<close>

datatype num_error = ErrSyntax | ErrRange

record 'v Flag =
  FlagName :: string
  Changed :: bool
  Value :: 'v
  SetValue :: "string \<Rightarrow> 'v \<Rightarrow> 'v \<times> num_error option"

text \<open>
  The viper instance of \<open>PersistentPreRunE\<close>: \<open>SetEnvKeyReplacer(strings.NewReplacer("-", "_"))\<close>
  and \<open>AutomaticEnv()\<close>. A key is looked up in the environment under its upper-cased name
  with every hyphen replaced by an underscore; an empty value counts as not set.
\<close>

definition env_key :: "string \<Rightarrow> string" where
  "env_key name = map (\<lambda>c. if c = CHR ''-'' then CHR ''_'' else c) (ToUpper name)"

definition viper_Get :: "environ \<Rightarrow> string \<Rightarrow> string option" where
  "viper_Get env name =
     (case env (env_key name) of
        None \<Rightarrow> None
      | Some v \<Rightarrow> if v = [] then None else Some v)"

definition viper_IsSet :: "environ \<Rightarrow> string \<Rightarrow> bool" where
  "viper_IsSet env name = (viper_Get env name \<noteq> None)"

text \<open>
  The body of the \<open>VisitAll\<close> callback for one flag: \<open>cmd.Flags().Set(f.Name, val)\<close> calls
  the \<open>Set\<close> method of the flag's value, which stores what it parsed; on an error the
  flag is not marked as changed and the callback logs a line, otherwise the flag is
  marked as changed. The result is the flag and the lines logged.
\<close>

definition bind_env :: "environ \<Rightarrow> 'v Flag \<Rightarrow> 'v Flag \<times> string list" where
  "bind_env env f =
     (if \<not> Changed f \<and> viper_IsSet env (FlagName f) then
        (case viper_Get env (FlagName f) of
           None \<Rightarrow> (f, [])
         | Some val \<Rightarrow>
             (case SetValue f val (Value f) of
                (v, Some err) \<Rightarrow>
                  (f\<lparr>Value := v\<rparr>,
                   [''Unable to bind environment variable to input flag: ''
                      @ FlagName f @ ''='' @ val])
              | (v, None) \<Rightarrow> (f\<lparr>Value := v, Changed := True\<rparr>, [])))
      else (f, []))"

text \<open>
  \<open>PersistentPreRunE\<close> of both commands visits every flag of the flag set (flag names are
  unique in a flag set); the second component collects the logged lines. The status
  setter's then returns nil; the controller's goes on to apply the logging configuration,
  which is not modelled.
\<close>

definition PersistentPreRunE :: "environ \<Rightarrow> 'v Flag list \<Rightarrow> 'v Flag list \<times> string list" where
  "PersistentPreRunE env fs =
     (map (\<lambda>f. fst (bind_env env f)) fs, concat (map (\<lambda>f. snd (bind_env env f)) fs))"

text \<open>
  \<open>FlagSet.Set\<close>, as the command-line parser uses it for an argument \<open>--name=value\<close>; an
  error ends the parse, and the flag set is not used further.
\<close>

fun FlagSet_Set :: "'v Flag list \<Rightarrow> string \<Rightarrow> string \<Rightarrow> error + 'v Flag list" where
  "FlagSet_Set [] name val = Inl (ErrorString (''unknown flag: --'' @ name))"
| "FlagSet_Set (f # fs) name val =
     (if FlagName f = name then
        (case SetValue f val (Value f) of
           (v, Some err) \<Rightarrow> Inl (ErrorString (''invalid argument for --'' @ name))
         | (v, None) \<Rightarrow> Inr (f\<lparr>Value := v, Changed := True\<rparr> # fs))
      else
        (case FlagSet_Set fs name val of
           Inl e \<Rightarrow> Inl e
         | Inr fs' \<Rightarrow> Inr (f # fs')))"

fun ParseFlags :: "'v Flag list \<Rightarrow> (string \<times> string) list \<Rightarrow> error + 'v Flag list" where
  "ParseFlags fs [] = Inr fs"
| "ParseFlags fs ((name, val) # args) =
     (case FlagSet_Set fs name val of
        Inl e \<Rightarrow> Inl e
      | Inr fs' \<Rightarrow> ParseFlags fs' args)"

fun flag_value :: "'v Flag list \<Rightarrow> string \<Rightarrow> 'v \<Rightarrow> 'v" where
  "flag_value [] name d = d"
| "flag_value (f # fs) name d = (if FlagName f = name then Value f else flag_value fs name d)"

text \<open>The \<open>Set\<close> method of a string flag stores every string.\<close>

definition String_Set :: "string \<Rightarrow> string \<Rightarrow> string \<times> num_error option" where
  "String_Set s old = (s, None)"

subsection \<open>Integer flags: \<open>strconv.ParseInt(s, 0, 64)\<close>\<close>












subsection \<open>Boolean flags\<close>

text \<open>
  \<open>strconv.ParseBool\<close> and \<open>strconv.FormatBool\<close>. The \<open>Set\<close> method of a boolean flag
  stores what \<open>ParseBool\<close> returned, false on an error. The flag set of the status
  setter keeps every value in the text form that the \<open>String\<close> method of the value gives,
  which for a string flag is the string itself and for a boolean flag is \<open>true\<close> or
  \<open>false\<close>; \<open>GetBool\<close> of the flag set reads that text back with \<open>ParseBool\<close>.
\<close>

definition ParseBool :: "string \<Rightarrow> bool option" where
  "ParseBool s =
     (if s \<in> set [''1'', ''t'', ''T'', ''TRUE'', ''true'', ''True''] then Some True
      else if s \<in> set [''0'', ''f'', ''F'', ''FALSE'', ''false'', ''False''] then Some False
      else None)"

definition FormatBool :: "bool \<Rightarrow> string" where
  "FormatBool b = (if b then ''true'' else ''false'')"

definition Bool_Set :: "string \<Rightarrow> string \<Rightarrow> string \<times> num_error option" where
  "Bool_Set s old =
     (case ParseBool s of
        None \<Rightarrow> (FormatBool False, Some ErrSyntax)
      | Some b \<Rightarrow> (FormatBool b, None))"

definition GetBool :: "string Flag list \<Rightarrow> string \<Rightarrow> bool" where
  "GetBool fs name = (ParseBool (flag_value fs name (FormatBool False)) = Some True)"

section \<open>The status-setter tool: flags and validation\<close>

record Flags =
  kubeconfig :: string
  status :: string

text \<open>
  \<open>AddFlags\<close> of set-nas-status declares two string flags, both with the empty string as
  their default.
\<close>

definition AddFlags :: "string Flag list" where
  "AddFlags =
     [\<lparr>FlagName = ''kubeconfig'', Changed = False, Value = [], SetValue = String_Set\<rparr>,
      \<lparr>FlagName = ''status'', Changed = False, Value = [], SetValue = String_Set\<rparr>]"

definition Flags_of :: "string Flag list \<Rightarrow> Flags" where
  "Flags_of fs = \<lparr>kubeconfig = flag_value fs ''kubeconfig'' [], status = flag_value fs ''status'' []\<rparr>"

text \<open>
  Modelled from the spec: the constants \<open>NodeAllocationStateStatusReady\<close> and
  \<open>NodeAllocationStateStatusNotReady\<close> of the API package, which is not among the
  sources; the spec gives the status enumeration as \<open>{Ready, NotReady}\<close>.
\<close>

definition NodeAllocationStateStatusReady :: string where
  "NodeAllocationStateStatusReady = ''Ready''"

text \<open>
  Modelled from the spec: the second constant of the API package, \<open>NotReady\<close>.
\<close>

definition NodeAllocationStateStatusNotReady :: string where
  "NodeAllocationStateStatusNotReady = ''NotReady''"

definition ValidateFlags :: "Flags \<Rightarrow> error + Flags" where
  "ValidateFlags f =
     (if ToLower (status f) = ToLower NodeAllocationStateStatusReady then
        Inr (f\<lparr>status := NodeAllocationStateStatusReady\<rparr>)
      else if ToLower (status f) = ToLower NodeAllocationStateStatusNotReady then
        Inr (f\<lparr>status := NodeAllocationStateStatusNotReady\<rparr>)
      else Inl (ErrorString (''unknown status: '' @ status f)))"

section \<open>The cluster: nodes and allocation-state records\<close>

record OwnerReference =
  APIVersion :: string
  Kind :: string
  OwnerName :: string
  OwnerUID :: string

record NodeAllocationState =
  Name :: string
  Namespace :: string
  OwnerReferences :: "OwnerReference list"
  Status :: string
  UID :: nat
  ResourceVersion :: nat

record NodeAllocationStateConfig =
  ConfigName :: string
  ConfigNamespace :: string
  ConfigOwner :: "OwnerReference option"

text \<open>
  Modelled from the spec: \<open>NewNodeAllocationState\<close> of the API package, which is not
  among the sources. The spec has the new record carry the supplied identity and owner
  reference, with the status field unset; the server assigns UID and version on creation.
\<close>

definition NewNodeAllocationState :: "NodeAllocationStateConfig \<Rightarrow> NodeAllocationState" where
  "NewNodeAllocationState config =
     \<lparr>Name = ConfigName config, Namespace = ConfigNamespace config,
      OwnerReferences = (case ConfigOwner config of None \<Rightarrow> [] | Some ow \<Rightarrow> [ow]),
      Status = [], UID = 0, ResourceVersion = 0\<rparr>"

record rest_Config =
  Host :: string
  QPS :: rat
  Burst :: int

text \<open>What other clients of the cluster do between two requests of this process.\<close>

datatype env_action =
  OtherSetStatus string string string
| OtherCreate NodeAllocationState

datatype event =
  EvInClusterConfig
| EvBuildConfigFromFlags string string
| EvNewCoreClient
| EvNewExampleClient
| EvGetNode string
| EvGet string string "error + NodeAllocationState"
| EvCreate NodeAllocationState "error + NodeAllocationState"
| EvUpdate NodeAllocationState "error + NodeAllocationState"

text \<open>
  Everything outside the process: its environment variables, the outcome of the client
  library's configuration and construction calls and of \<open>net.Listen\<close> with the
  listeners opened so far, the help text that the command renders for the terminal it
  runs in, the cluster's nodes (name to UID), the
  stored allocation-state records with the store's revision counter and the journal of
  persisted writes, the schedule of what other clients do before each request of this
  process, and the trace of the calls this process made.
\<close>

record world =
  environ :: environ
  inClusterConfig :: "error + rest_Config"
  buildConfigFromFlags :: "string \<Rightarrow> string \<Rightarrow> error + rest_Config"
  coreNewForConfig :: "rest_Config \<Rightarrow> error option"
  exampleNewForConfig :: "rest_Config \<Rightarrow> error option"
  netListen :: "string \<Rightarrow> error option"
  listeners :: "string list"
  helpText :: string
  nodes :: "string \<rightharpoonup> string"
  objects :: "NodeAllocationState list"
  revision :: nat
  journal :: "NodeAllocationState list"
  others :: "env_action list list"
  trace :: "event list"

definition emit :: "event \<Rightarrow> world \<Rightarrow> world" where
  "emit ev w = w\<lparr>trace := trace w @ [ev]\<rparr>"

subsection \<open>The API server\<close>

text \<open>
  The cluster store is an external collaborator, modelled from what the spec says of it.
  Names are unique within a namespace (a second create of a key is refused as already
  existing), and a write is conditional on the version the writer observed (a mismatch is
  a conflict). Every persisted write advances the revision counter, stamps the object
  with it and is appended to the journal. Records are not deleted here: deletion happens
  only through garbage collection with the node, which is outside this model, and so are
  network faults.
\<close>

definition has_key :: "string \<Rightarrow> string \<Rightarrow> NodeAllocationState \<Rightarrow> bool" where
  "has_key ns name r = (Namespace r = ns \<and> Name r = name)"

definition lookup :: "NodeAllocationState list \<Rightarrow> string \<Rightarrow> string \<Rightarrow> NodeAllocationState option" where
  "lookup objs ns name = find (has_key ns name) objs"

definition api_Get :: "world \<Rightarrow> string \<Rightarrow> string \<Rightarrow> error + NodeAllocationState" where
  "api_Get w ns name =
     (case lookup (objects w) ns name of
        None \<Rightarrow> Inl (StatusError NotFound ''not found'')
      | Some r \<Rightarrow> Inr r)"

definition api_Create :: "world \<Rightarrow> NodeAllocationState \<Rightarrow> (error + NodeAllocationState) \<times> world" where
  "api_Create w r =
     (case lookup (objects w) (Namespace r) (Name r) of
        Some cur \<Rightarrow> (Inl (StatusError AlreadyExists ''already exists''), w)
      | None \<Rightarrow>
          (let r' = r\<lparr>UID := Suc (revision w), ResourceVersion := Suc (revision w)\<rparr>
           in (Inr r', w\<lparr>objects := objects w @ [r'], revision := Suc (revision w),
                          journal := journal w @ [r']\<rparr>)))"

definition api_Update :: "world \<Rightarrow> NodeAllocationState \<Rightarrow> (error + NodeAllocationState) \<times> world" where
  "api_Update w r =
     (case lookup (objects w) (Namespace r) (Name r) of
        None \<Rightarrow> (Inl (StatusError NotFound ''not found''), w)
      | Some cur \<Rightarrow>
          if ResourceVersion r \<noteq> ResourceVersion cur then
            (Inl (StatusError Conflict ''the object has been modified''), w)
          else
            (let r' = r\<lparr>UID := UID cur, ResourceVersion := Suc (revision w)\<rparr>
             in (Inr r',
                 w\<lparr>objects := map (\<lambda>ob. if has_key (Namespace r) (Name r) ob then r' else ob) (objects w),
                   revision := Suc (revision w),
                   journal := journal w @ [r']\<rparr>)))"

fun env_step :: "env_action \<Rightarrow> world \<Rightarrow> world" where
  "env_step (OtherSetStatus ns name st) w =
     (case lookup (objects w) ns name of
        None \<Rightarrow> w
      | Some cur \<Rightarrow> snd (api_Update w (cur\<lparr>Status := st\<rparr>)))"
| "env_step (OtherCreate r) w = snd (api_Create w r)"

definition interfere :: "world \<Rightarrow> world" where
  "interfere w =
     (case others w of
        [] \<Rightarrow> w
      | acts # rest \<Rightarrow> fold env_step acts (w\<lparr>others := rest\<rparr>))"

text \<open>
  A request of this process: the other clients take their scheduled turn, the server
  answers atomically, and the call and its answer are recorded in the trace.
\<close>

definition call_Get :: "world \<Rightarrow> string \<Rightarrow> string \<Rightarrow> (error + NodeAllocationState) \<times> world" where
  "call_Get w ns name =
     (let w1 = interfere w; res = api_Get w1 ns name
      in (res, emit (EvGet ns name res) w1))"

definition call_Create :: "world \<Rightarrow> NodeAllocationState \<Rightarrow> (error + NodeAllocationState) \<times> world" where
  "call_Create w r =
     (let w1 = interfere w; (res, w2) = api_Create w1 r
      in (res, emit (EvCreate r res) w2))"

definition call_Update :: "world \<Rightarrow> NodeAllocationState \<Rightarrow> (error + NodeAllocationState) \<times> world" where
  "call_Update w r =
     (let w1 = interfere w; (res, w2) = api_Update w1 r
      in (res, emit (EvUpdate r res) w2))"

subsection \<open>The status client\<close>

text \<open>
  The client package (\<open>nasclient\<close>) is not among the sources; its operations are
  modelled from the spec. The client holds the most recently observed record, which the
  operations below take and return.
\<close>

text \<open>
  Modelled from the spec: the fetch of the client package, missing from the sources. It
  fetches the record by the key of the record held and, on success, holds the result.
\<close>

definition Get :: "NodeAllocationState \<Rightarrow> world \<Rightarrow> error option \<times> NodeAllocationState \<times> world" where
  "Get nas w =
     (case call_Get w (Namespace nas) (Name nas) of
        (Inl e, w') \<Rightarrow> (Some e, nas, w')
      | (Inr r, w') \<Rightarrow> (None, r, w'))"

text \<open>
  Modelled from the spec: the create of the client package, missing from the sources. It
  creates the record held and, on success, holds the stored record.
\<close>

definition Create :: "NodeAllocationState \<Rightarrow> world \<Rightarrow> error option \<times> NodeAllocationState \<times> world" where
  "Create nas w =
     (case call_Create w nas of
        (Inl e, w') \<Rightarrow> (Some e, nas, w')
      | (Inr r, w') \<Rightarrow> (None, r, w'))"

text \<open>
  Modelled from the spec: \<open>GetOrCreate\<close> of the client package, missing from the sources.
  It fetches the record by its key; on not-found it creates the record from the supplied
  identity; an already-exists answer to the create is treated as success followed by a
  fetch.
\<close>

definition GetOrCreate :: "NodeAllocationState \<Rightarrow> world \<Rightarrow> error option \<times> NodeAllocationState \<times> world" where
  "GetOrCreate nas w =
     (case Get nas w of
        (None, nas1, w1) \<Rightarrow> (None, nas1, w1)
      | (Some e, nas1, w1) \<Rightarrow>
          if IsNotFound e then
            (case Create nas1 w1 of
               (None, nas2, w2) \<Rightarrow> (None, nas2, w2)
             | (Some e2, nas2, w2) \<Rightarrow>
                 if IsAlreadyExists e2 then Get nas2 w2 else (Some e2, nas2, w2))
          else (Some e, nas1, w1))"

text \<open>
  Modelled from the spec: \<open>UpdateStatus\<close> of the client package, missing from the sources.
  Given the most recently observed record, it sets the status field and issues a write
  conditional on the observed version; a version mismatch fails with a conflict.
\<close>

definition UpdateStatus :: "NodeAllocationState \<Rightarrow> string \<Rightarrow> world \<Rightarrow> error option \<times> NodeAllocationState \<times> world" where
  "UpdateStatus nas st w =
     (case call_Update w (nas\<lparr>Status := st\<rparr>) of
        (Inl e, w') \<Rightarrow> (Some e, nas, w')
      | (Inr r, w') \<Rightarrow> (None, r, w'))"

subsection \<open>Retrying on conflict\<close>

text \<open>
  \<open>retry.RetryOnConflict(backoff, fn)\<close> of the client library runs \<open>fn\<close> at most
  \<open>backoff.Steps\<close> times: a nil result or an error that is not a conflict ends the loop
  with that result, a conflict is remembered and retried, and when the steps are used up
  the last conflict is returned. \<open>retry.DefaultRetry\<close> has five steps. The sleeps
  between attempts are not modelled.
\<close>

fun RetryOnConflict :: "nat \<Rightarrow> ('s \<Rightarrow> error option \<times> 's) \<Rightarrow> error option \<Rightarrow> 's \<Rightarrow> error option \<times> 's" where
  "RetryOnConflict 0 fn lastErr s = (lastErr, s)"
| "RetryOnConflict (Suc n) fn lastErr s =
     (case fn s of
        (None, s') \<Rightarrow> (None, s')
      | (Some e, s') \<Rightarrow>
          if IsConflict e then RetryOnConflict n fn (Some e) s' else (Some e, s'))"

definition DefaultRetry_Steps :: nat where
  "DefaultRetry_Steps = 5"

section \<open>The status-setter tool: configuration, status update and main\<close>

record Config =
  flags :: Flags
  nascrd :: NodeAllocationState

definition GetClientsetConfig :: "Flags \<Rightarrow> world \<Rightarrow> (error + rest_Config) \<times> Flags \<times> world" where
  "GetClientsetConfig f w =
     (let kubeconfigEnv = Getenv (environ w) ''KUBECONFIG'';
          f1 = (if kubeconfigEnv \<noteq> [] then f\<lparr>kubeconfig := kubeconfigEnv\<rparr> else f)
      in if kubeconfig f1 = [] then
           (case inClusterConfig w of
              Inl e \<Rightarrow> (Inl (Errorf ''create in-cluster client configuration: '' e), f1,
                         emit EvInClusterConfig w)
            | Inr csconfig \<Rightarrow> (Inr csconfig, f1, emit EvInClusterConfig w))
         else
           (case buildConfigFromFlags w [] (kubeconfig f1) of
              Inl e \<Rightarrow> (Inl (Errorf ''create out-of-cluster client configuration: '' e), f1,
                         emit (EvBuildConfigFromFlags [] (kubeconfig f1)) w)
            | Inr csconfig \<Rightarrow> (Inr csconfig, f1, emit (EvBuildConfigFromFlags [] (kubeconfig f1)) w)))"

text \<open>The closure that \<open>SetStatus\<close> hands to \<open>RetryOnConflict\<close>: one attempt.\<close>

definition SetStatus_attempt :: "string \<Rightarrow> NodeAllocationState \<times> world \<Rightarrow> error option \<times> NodeAllocationState \<times> world" where
  "SetStatus_attempt st s =
     (case GetOrCreate (fst s) (snd s) of
        (Some e, nas1, w1) \<Rightarrow> (Some e, nas1, w1)
      | (None, nas1, w1) \<Rightarrow> UpdateStatus nas1 st w1)"

definition SetStatus :: "Config \<Rightarrow> world \<Rightarrow> error option \<times> world" where
  "SetStatus config w =
     (case RetryOnConflict DefaultRetry_Steps (SetStatus_attempt (status (flags config))) None
             (nascrd config, w) of
        (err, nas', w') \<Rightarrow> (err, w'))"

definition Nodes_Get :: "world \<Rightarrow> string \<Rightarrow> (error + string) \<times> world" where
  "Nodes_Get w name =
     (let w1 = emit (EvGetNode name) w
      in if name = [] then (Inl (ErrorString ''resource name may not be empty''), w1)
         else (case nodes w name of
                 None \<Rightarrow> (Inl (StatusError NotFound ''not found''), w1)
               | Some uid \<Rightarrow> (Inr uid, w1)))"

definition RunE :: "Flags \<Rightarrow> world \<Rightarrow> error option \<times> world" where
  "RunE flags0 w =
     (case ValidateFlags flags0 of
        Inl e \<Rightarrow> (Some (Errorf ''validate flags: '' e), w)
      | Inr flags1 \<Rightarrow>
     (case GetClientsetConfig flags1 w of
        (Inl e, flags2, w1) \<Rightarrow> (Some (Errorf ''create client configuration: '' e), w1)
      | (Inr csconfig, flags2, w1) \<Rightarrow>
     (case coreNewForConfig w1 csconfig of
        Some e \<Rightarrow> (Some (Errorf ''create core client: '' e), emit EvNewCoreClient w1)
      | None \<Rightarrow>
     (case exampleNewForConfig w1 csconfig of
        Some e \<Rightarrow> (Some (Errorf ''create example.com client: '' e),
                   emit EvNewExampleClient (emit EvNewCoreClient w1))
      | None \<Rightarrow>
     (let w2 = emit EvNewExampleClient (emit EvNewCoreClient w1);
          nodeName = Getenv (environ w2) ''NODE_NAME'';
          podNamespace = Getenv (environ w2) ''POD_NAMESPACE''
      in case Nodes_Get w2 nodeName of
           (Inl e, w3) \<Rightarrow> (Some (Errorf ''get node object: '' e), w3)
         | (Inr nodeUID, w3) \<Rightarrow>
             (let crdconfig = \<lparr>ConfigName = nodeName, ConfigNamespace = podNamespace,
                                ConfigOwner = Some \<lparr>APIVersion = ''v1'', Kind = ''Node'',
                                                    OwnerName = nodeName, OwnerUID = nodeUID\<rparr>\<rparr>;
                  config = \<lparr>flags = flags2, nascrd = NewNodeAllocationState crdconfig\<rparr>
              in SetStatus config w3))))))"

text \<open>
  The command framework adds a boolean \<open>help\<close> flag to the flags that \<open>AddFlags\<close> declares.
\<close>

definition help_flag :: "string Flag" where
  "help_flag = \<lparr>FlagName = ''help'', Changed = False, Value = FormatBool False, SetValue = Bool_Set\<rparr>"

text \<open>
  \<open>command.Execute()\<close>: the command line (the flags given, as name and value, a bare
  \<open>--help\<close> being \<open>help\<close> with the value \<open>true\<close>) is parsed into the flag set. When help
  is asked for, the help text is written to standard output and nil is returned, without
  running anything else. Otherwise \<open>PersistentPreRunE\<close> binds the environment and \<open>RunE\<close>
  runs. The result is the error, the text written to standard output, and the world. The
  error and usage text that the command framework writes to standard error are not
  modelled.
\<close>

definition Execute :: "(string \<times> string) list \<Rightarrow> world \<Rightarrow> error option \<times> string \<times> world" where
  "Execute args w =
     (case ParseFlags (AddFlags @ [help_flag]) args of
        Inl e \<Rightarrow> (Some e, [], w)
      | Inr fs \<Rightarrow>
          if GetBool fs ''help'' then (None, helpText w, w)
          else (case RunE (Flags_of (fst (PersistentPreRunE (environ w) fs))) w of
                  (err, w') \<Rightarrow> (err, [], w')))"

record process_result =
  stdout :: string
  exit_code :: nat

text \<open>
  \<open>main\<close> prints the error of \<open>Execute\<close>, if any, and returns; a Go process whose
  \<open>main\<close> returns exits with code 0.
\<close>

definition main :: "(string \<times> string) list \<Rightarrow> world \<Rightarrow> process_result \<times> world" where
  "main args w =
     (case Execute args w of
        (Some err, out, w') \<Rightarrow>
          (\<lparr>stdout = out @ ''Error: '' @ Error_text err @ [CHR 0x0A], exit_code = 0\<rparr>, w')
      | (None, out, w') \<Rightarrow> (\<lparr>stdout = out, exit_code = 0\<rparr>, w'))"

section \<open>The controller process: configuration and the diagnostics endpoint\<close>

record ControllerFlags =
  ctl_kubeconfig :: string
  kubeAPIQPS :: rat
  kubeAPIBurst :: int
  workers :: int
  httpEndpoint :: string
  metricsPath :: string
  profilePath :: string

definition GetClientsetConfig_controller ::
  "ControllerFlags \<Rightarrow> world \<Rightarrow> (error + rest_Config) \<times> ControllerFlags \<times> world" where
  "GetClientsetConfig_controller f w =
     (let kubeconfigEnv = Getenv (environ w) ''KUBECONFIG'';
          f1 = (if kubeconfigEnv \<noteq> [] then f\<lparr>ctl_kubeconfig := kubeconfigEnv\<rparr> else f)
      in if ctl_kubeconfig f1 = [] then
           (case inClusterConfig w of
              Inl e \<Rightarrow> (Inl (Errorf ''create in-cluster client configuration: '' e), f1,
                         emit EvInClusterConfig w)
            | Inr csconfig \<Rightarrow>
                (Inr (csconfig\<lparr>QPS := kubeAPIQPS f1, Burst := kubeAPIBurst f1\<rparr>), f1,
                 emit EvInClusterConfig w))
         else
           (case buildConfigFromFlags w [] (ctl_kubeconfig f1) of
              Inl e \<Rightarrow> (Inl (Errorf ''create out-of-cluster client configuration: '' e), f1,
                         emit (EvBuildConfigFromFlags [] (ctl_kubeconfig f1)) w)
            | Inr csconfig \<Rightarrow>
                (Inr (csconfig\<lparr>QPS := kubeAPIQPS f1, Burst := kubeAPIBurst f1\<rparr>), f1,
                 emit (EvBuildConfigFromFlags [] (ctl_kubeconfig f1)) w)))"

subsection \<open>Paths and the request multiplexer\<close>

text \<open>
  \<open>path.Join\<close> joins its elements with slashes, ignoring leading empty ones, and cleans
  the result: empty and \<open>.\<close> components are dropped, \<open>..\<close> removes the component
  before it (at the root it is dropped, at the start of a relative path it is kept).
\<close>

fun split_slash :: "string \<Rightarrow> string list" where
  "split_slash [] = [[]]"
| "split_slash (c # cs) =
     (if c = CHR ''/'' then [] # split_slash cs
      else (case split_slash cs of
              [] \<Rightarrow> [[c]]
            | seg # segs \<Rightarrow> (c # seg) # segs))"

fun join_slash :: "string list \<Rightarrow> string" where
  "join_slash [] = []"
| "join_slash [x] = x"
| "join_slash (x # y # ys) = x @ CHR ''/'' # join_slash (y # ys)"

definition clean_component :: "bool \<Rightarrow> string list \<Rightarrow> string \<Rightarrow> string list" where
  "clean_component rooted stack seg =
     (if seg = [] \<or> seg = ''.'' then stack
      else if seg = ''..'' then
        (if stack \<noteq> [] \<and> last stack \<noteq> ''..'' then butlast stack
         else if rooted then stack
         else stack @ [''..''])
      else stack @ [seg])"

definition path_Clean :: "string \<Rightarrow> string" where
  "path_Clean p =
     (if p = [] then ''.''
      else
        (let rooted = (hd p = CHR ''/'');
             body = join_slash (foldl (clean_component rooted) [] (split_slash p))
         in if rooted then CHR ''/'' # body
            else if body = [] then ''.'' else body))"

definition path_Join :: "string list \<Rightarrow> string" where
  "path_Join elems =
     (if concat elems = [] then []
      else path_Clean (join_slash (dropWhile (\<lambda>e. e = []) elems)))"

datatype handler =
  MetricsHandler | PprofIndex | PprofCmdline | PprofProfile | PprofSymbol | PprofTrace

type_synonym ServeMux = "(string \<times> handler) list"

text \<open>
  \<open>ServeMux.Handle\<close> and \<open>ServeMux.HandleFunc\<close> panic on an empty pattern and on a
  pattern that is already registered; \<open>Inl\<close> is the panic.
\<close>

definition mux_Handle :: "ServeMux \<Rightarrow> string \<Rightarrow> handler \<Rightarrow> string + ServeMux" where
  "mux_Handle mux pattern h =
     (if pattern = [] then Inl ''http: invalid pattern''
      else if pattern \<in> set (map fst mux) then Inl (''http: multiple registrations for '' @ pattern)
      else Inr (mux @ [(pattern, h)]))"

fun mux_HandleAll :: "ServeMux \<Rightarrow> (string \<times> handler) list \<Rightarrow> string + ServeMux" where
  "mux_HandleAll mux [] = Inr mux"
| "mux_HandleAll mux ((pattern, h) # rest) =
     (case mux_Handle mux pattern h of
        Inl panic \<Rightarrow> Inl panic
      | Inr mux' \<Rightarrow> mux_HandleAll mux' rest)"

definition metrics_routes :: "string \<Rightarrow> (string \<times> handler) list" where
  "metrics_routes mp = [(path_Join [''/'', mp], MetricsHandler)]"

definition pprof_routes :: "string \<Rightarrow> (string \<times> handler) list" where
  "pprof_routes pp =
     [(path_Join [''/'', pp], PprofIndex),
      (path_Join [''/'', pp, ''cmdline''], PprofCmdline),
      (path_Join [''/'', pp, ''profile''], PprofProfile),
      (path_Join [''/'', pp, ''symbol''], PprofSymbol),
      (path_Join [''/'', pp, ''trace''], PprofTrace)]"

text \<open>
  \<open>SetupHTTPEndpoint\<close>: \<open>Inl\<close> is a panic of the multiplexer; otherwise the returned
  error, the multiplexer and the world, where a successful \<open>net.Listen\<close> has opened a
  listener that the server goroutine then serves.
\<close>

definition SetupHTTPEndpoint ::
  "ControllerFlags \<Rightarrow> ServeMux \<Rightarrow> world \<Rightarrow> string + (error option \<times> ServeMux \<times> world)" where
  "SetupHTTPEndpoint f mux w =
     (case (if metricsPath f \<noteq> [] then mux_HandleAll mux (metrics_routes (metricsPath f))
            else Inr mux) of
        Inl panic \<Rightarrow> Inl panic
      | Inr mux1 \<Rightarrow>
     (case (if profilePath f \<noteq> [] then mux_HandleAll mux1 (pprof_routes (profilePath f))
            else Inr mux1) of
        Inl panic \<Rightarrow> Inl panic
      | Inr mux2 \<Rightarrow>
     (case netListen w (httpEndpoint f) of
        Some e \<Rightarrow> Inr (Some (Errorf ''listen on HTTP endpoint: '' e), mux2, w)
      | None \<Rightarrow> Inr (None, mux2, w\<lparr>listeners := listeners w @ [httpEndpoint f]\<rparr>))))"

text \<open>
  How \<open>RunE\<close> of the controller ends: it returns an error, it panics, or it reaches
  \<open>StartController\<close>, whose engine runs until the process is terminated.
\<close>

datatype outcome = Failed error | Panicked string | Running

definition RunE_controller :: "ControllerFlags \<Rightarrow> world \<Rightarrow> outcome \<times> ServeMux \<times> world" where
  "RunE_controller flags0 w =
     (let mux = []
      in case GetClientsetConfig_controller flags0 w of
           (Inl e, flags1, w1) \<Rightarrow> (Failed (Errorf ''create client configuration: '' e), mux, w1)
         | (Inr csconfig, flags1, w1) \<Rightarrow>
     (case coreNewForConfig w1 csconfig of
        Some e \<Rightarrow> (Failed (Errorf ''create core client: '' e), mux, emit EvNewCoreClient w1)
      | None \<Rightarrow>
     (case exampleNewForConfig w1 csconfig of
        Some e \<Rightarrow> (Failed (Errorf ''create example.com client: '' e), mux,
                   emit EvNewExampleClient (emit EvNewCoreClient w1))
      | None \<Rightarrow>
     (let w2 = emit EvNewExampleClient (emit EvNewCoreClient w1)
      in if httpEndpoint flags1 \<noteq> [] then
           (case SetupHTTPEndpoint flags1 mux w2 of
              Inl panic \<Rightarrow> (Panicked panic, mux, w2)
            | Inr (Some e, mux', w3) \<Rightarrow> (Failed (Errorf ''create http endpoint: '' e), mux', w3)
            | Inr (None, mux', w3) \<Rightarrow> (Running, mux', w3))
         else (Running, mux, w2)))))"

section \<open>Trace properties and example inputs\<close>

text \<open>
  The version a request observes (a successful fetch or create returns the stored
  record) and the version a conditional write is tied to (the one in the record sent).
\<close>

fun observed_version :: "event \<Rightarrow> nat option" where
  "observed_version (EvGet ns name (Inr r)) = Some (ResourceVersion r)"
| "observed_version (EvCreate r0 (Inr r)) = Some (ResourceVersion r)"
| "observed_version ev = None"

fun written_version :: "event \<Rightarrow> nat option" where
  "written_version (EvUpdate r res) = Some (ResourceVersion r)"
| "written_version ev = None"

text \<open>
  \<open>fresh_writes prev evs\<close>: every write request in \<open>evs\<close> comes directly after a
  successful fetch (a get or a create that returned the record) and is tied to the
  version that this fetch returned; \<open>prev\<close> is the event before \<open>evs\<close>, if any.
\<close>

fun fresh_writes :: "event option \<Rightarrow> event list \<Rightarrow> bool" where
  "fresh_writes prev [] = True"
| "fresh_writes prev (ev # evs) =
     ((case written_version ev of
         None \<Rightarrow> True
       | Some v \<Rightarrow> (case prev of None \<Rightarrow> False | Some p \<Rightarrow> observed_version p = Some v))
      \<and> fresh_writes (Some ev) evs)"

text \<open>
  An example: a pod on node \<open>n1\<close> in namespace \<open>ns\<close>, in-cluster credentials at hand,
  no record stored yet and no other client active.
\<close>

definition example_world :: world where
  "example_world =
     \<lparr>environ = [''NODE_NAME'' \<mapsto> ''n1'', ''POD_NAMESPACE'' \<mapsto> ''ns''],
      inClusterConfig = Inr \<lparr>Host = ''https://10.0.0.1'', QPS = 0, Burst = 0\<rparr>,
      buildConfigFromFlags = (\<lambda>masterUrl path. Inr \<lparr>Host = path, QPS = 0, Burst = 0\<rparr>),
      coreNewForConfig = (\<lambda>c. None),
      exampleNewForConfig = (\<lambda>c. None),
      netListen = (\<lambda>addr. None),
      listeners = [],
      helpText = ''set-nas-status sets the status of the NodeAllocationState CRD managed by the DRA driver for GPUs.'',
      nodes = [''n1'' \<mapsto> ''uid-1''],
      objects = [],
      revision = 0,
      journal = [],
      others = [],
      trace = []\<rparr>"

definition example_config :: Config where
  "example_config =
     \<lparr>flags = \<lparr>kubeconfig = [], status = ''Ready''\<rparr>,
      nascrd = NewNodeAllocationState
                 \<lparr>ConfigName = ''n1'', ConfigNamespace = ''ns'',
                  ConfigOwner = Some \<lparr>APIVersion = ''v1'', Kind = ''Node'',
                                      OwnerName = ''n1'', OwnerUID = ''uid-1''\<rparr>\<rparr>\<rparr>"

text \<open>
  The same world with another writer that updates the record between this process's
  create and its first write.
\<close>

definition conflict_world :: world where
  "conflict_world = example_world\<lparr>others := [[], [], [OtherSetStatus ''ns'' ''n1'' ''NotReady'']]\<rparr>"

text \<open>Worlds whose environment names a kubeconfig file, or a status.\<close>

definition env_override_world :: world where
  "env_override_world = example_world\<lparr>environ := (environ example_world)(''KUBECONFIG'' \<mapsto> ''/env/config'')\<rparr>"

definition env_status_world :: world where
  "env_status_world = example_world\<lparr>environ := (environ example_world)(''STATUS'' \<mapsto> ''ready'')\<rparr>"

text \<open>
  The call that resolves the client configuration, given the value of \<open>KUBECONFIG\<close> and
  the value of the \<open>--kubeconfig\<close> flag.
\<close>

definition config_call :: "string \<Rightarrow> string \<Rightarrow> event" where
  "config_call envPath flagPath =
     (if envPath \<noteq> [] then EvBuildConfigFromFlags [] envPath
      else if flagPath \<noteq> [] then EvBuildConfigFromFlags [] flagPath
      else EvInClusterConfig)"




text \<open>
  The store's uniqueness guarantee (no two records with one key), and the UID of the
  record stored under a key.
\<close>

definition unique_keys :: "NodeAllocationState list \<Rightarrow> bool" where
  "unique_keys objs = distinct (map (\<lambda>r. (Namespace r, Name r)) objs)"

definition uid_at :: "NodeAllocationState list \<Rightarrow> string \<Rightarrow> string \<Rightarrow> nat option" where
  "uid_at objs ns name = map_option UID (lookup objs ns name)"

text \<open>
  A world in which another creator creates the record of \<open>n1\<close> between this process's
  get and its create, and a world in which the record is already stored.
\<close>

definition racing_world :: world where
  "racing_world = example_world\<lparr>others := [[], [OtherCreate (nascrd example_config)]]\<rparr>"

definition stored_record :: NodeAllocationState where
  "stored_record = (nascrd example_config)\<lparr>UID := 1, ResourceVersion := 1\<rparr>"

definition stored_world :: world where
  "stored_world = example_world\<lparr>objects := [stored_record], revision := 1, journal := [stored_record]\<rparr>"

text \<open>
  \<open>creates_template tmpl ev\<close>: if \<open>ev\<close> is a create request, the record it sends is
  \<open>tmpl\<close>, and the record stored on success differs from it in the server-assigned
  UID and version only.
\<close>

fun creates_template :: "NodeAllocationState \<Rightarrow> event \<Rightarrow> bool" where
  "creates_template tmpl (EvCreate r (Inl e)) = (r = tmpl)"
| "creates_template tmpl (EvCreate r (Inr r')) =
     (r = tmpl \<and> r' = tmpl\<lparr>UID := UID r', ResourceVersion := ResourceVersion r'\<rparr>)"
| "creates_template tmpl ev = True"

definition is_create :: "event \<Rightarrow> bool" where
  "is_create ev = (case ev of EvCreate r res \<Rightarrow> True | _ \<Rightarrow> False)"

text \<open>The record that \<open>RunE\<close> builds for node \<open>nodeName\<close> with UID \<open>uid\<close> in a namespace.\<close>

definition node_record :: "string \<Rightarrow> string \<Rightarrow> string \<Rightarrow> NodeAllocationState" where
  "node_record nodeName podNamespace uid =
     \<lparr>Name = nodeName, Namespace = podNamespace,
      OwnerReferences = [\<lparr>APIVersion = ''v1'', Kind = ''Node'', OwnerName = nodeName, OwnerUID = uid\<rparr>],
      Status = [], UID = 0, ResourceVersion = 0\<rparr>"

text \<open>
  The record of the template's key is stored; and what the status client holds during
  \<open>SetStatus\<close>: a record of the template's key that is the template itself unless the
  record is stored.
\<close>

definition present :: "NodeAllocationState \<Rightarrow> world \<Rightarrow> bool" where
  "present tmpl w = (lookup (objects w) (Namespace tmpl) (Name tmpl) \<noteq> None)"

definition holds_template :: "NodeAllocationState \<Rightarrow> NodeAllocationState \<Rightarrow> world \<Rightarrow> bool" where
  "holds_template tmpl nas w =
     (has_key (Namespace tmpl) (Name tmpl) nas \<and> (nas = tmpl \<or> present tmpl w))"

text \<open>
  A handler is registered in a multiplexer; the routes \<open>SetupHTTPEndpoint\<close> is to
  register for given flags; and the cleaned components of a path joined to the root.
\<close>

definition registered :: "ServeMux \<Rightarrow> handler \<Rightarrow> bool" where
  "registered mux h = (h \<in> snd ` set mux)"

definition expected_mux :: "ControllerFlags \<Rightarrow> ServeMux" where
  "expected_mux f =
     (if metricsPath f \<noteq> [] then metrics_routes (metricsPath f) else []) @
     (if profilePath f \<noteq> [] then pprof_routes (profilePath f) else [])"

definition root_stack :: "string \<Rightarrow> string list" where
  "root_stack p = foldl (clean_component True) [] (split_slash (CHR ''/'' # CHR ''/'' # p))"

text \<open>
  Controller flags with both diagnostics paths set, and flags whose two paths clean to
  the same pattern.
\<close>

definition diagnostics_flags :: ControllerFlags where
  "diagnostics_flags =
     \<lparr>ctl_kubeconfig = [], kubeAPIQPS = 5, kubeAPIBurst = 10, workers = 10,
      httpEndpoint = '':8080'', metricsPath = ''/metrics'', profilePath = ''/debug/pprof''\<rparr>"

definition colliding_flags :: ControllerFlags where
  "colliding_flags =
     \<lparr>ctl_kubeconfig = [], kubeAPIQPS = 5, kubeAPIBurst = 10, workers = 10,
      httpEndpoint = '':8080'', metricsPath = ''/debug'', profilePath = ''debug/''\<rparr>"

text \<open>
  The record a request fetched (a successful get or create returns the stored record) and
  the record a write request sends. \<open>writes_back prev evs\<close>: every write request in \<open>evs\<close>
  comes directly after a successful fetch and sends the record fetched with nothing but
  the status changed; \<open>prev\<close> is the event before \<open>evs\<close>, if any.
\<close>

fun fetched_record :: "event \<Rightarrow> NodeAllocationState option" where
  "fetched_record (EvGet ns name (Inr r)) = Some r"
| "fetched_record (EvCreate r0 (Inr r)) = Some r"
| "fetched_record ev = None"

fun written_record :: "event \<Rightarrow> NodeAllocationState option" where
  "written_record (EvUpdate r res) = Some r"
| "written_record ev = None"

fun writes_back :: "event option \<Rightarrow> event list \<Rightarrow> bool" where
  "writes_back prev [] = True"
| "writes_back prev (ev # evs) =
     ((case written_record ev of
         None \<Rightarrow> True
       | Some r \<Rightarrow>
           (case prev of
              None \<Rightarrow> False
            | Some p \<Rightarrow>
                (case fetched_record p of
                   None \<Rightarrow> False
                 | Some r0 \<Rightarrow> r = r0\<lparr>Status := Status r\<rparr>)))
      \<and> writes_back (Some ev) evs)"

text \<open>
  A world in which the record of \<open>n1\<close> is stored with an owner reference to an earlier
  node object of that name, while the node now has the UID \<open>uid-1\<close>.
\<close>

definition stale_record :: NodeAllocationState where
  "stale_record = (node_record ''n1'' ''ns'' ''uid-OLD'')\<lparr>UID := 1, ResourceVersion := 1\<rparr>"

definition stale_world :: world where
  "stale_world = example_world\<lparr>objects := [stale_record], revision := 1, journal := [stale_record]\<rparr>"

section \<open>The trace of the status update\<close>

lemma trace_api_Create: "trace (snd (api_Create w r)) = trace w"
  by (simp add: api_Create_def Let_def split: option.splits)

lemma trace_api_Update: "trace (snd (api_Update w r)) = trace w"
  by (simp add: api_Update_def Let_def split: option.splits)

lemma trace_env_step: "trace (env_step a w) = trace w"
  by (cases a) (simp_all add: trace_api_Create trace_api_Update split: option.splits)

lemma trace_fold_env_step: "trace (fold env_step acts w) = trace w"
  by (induction acts arbitrary: w) (simp_all add: trace_env_step)

lemma trace_interfere: "trace (interfere w) = trace w"
  by (simp add: interfere_def trace_fold_env_step split: list.splits)

lemma trace_call_Get:
  "call_Get w ns name = (res, w') \<Longrightarrow> trace w' = trace w @ [EvGet ns name res]"
  by (auto simp: call_Get_def Let_def emit_def trace_interfere)

lemma trace_call_Create:
  "call_Create w r = (res, w') \<Longrightarrow> trace w' = trace w @ [EvCreate r res]"
  using trace_api_Create[of "interfere w" r]
  by (auto simp: call_Create_def Let_def emit_def trace_interfere split: prod.splits)

lemma trace_call_Update:
  "call_Update w r = (res, w') \<Longrightarrow> trace w' = trace w @ [EvUpdate r res]"
  using trace_api_Update[of "interfere w" r]
  by (auto simp: call_Update_def Let_def emit_def trace_interfere split: prod.splits)

lemma Get_trace:
  assumes "Get nas w = (err, nas', w')"
  shows "\<exists>ev. trace w' = trace w @ [ev] \<and> written_version ev = None \<and>
              (err = None \<longrightarrow> observed_version ev = Some (ResourceVersion nas'))"
proof -
  obtain res w1 where c: "call_Get w (Namespace nas) (Name nas) = (res, w1)"
    by (cases "call_Get w (Namespace nas) (Name nas)")
  from trace_call_Get[OF c] assms c show ?thesis
    by (cases res) (auto simp: Get_def)
qed

lemma Create_trace:
  assumes "Create nas w = (err, nas', w')"
  shows "\<exists>ev. trace w' = trace w @ [ev] \<and> written_version ev = None \<and>
              (err = None \<longrightarrow> observed_version ev = Some (ResourceVersion nas'))"
proof -
  obtain res w1 where c: "call_Create w nas = (res, w1)"
    by (cases "call_Create w nas")
  from trace_call_Create[OF c] assms c show ?thesis
    by (cases res) (auto simp: Create_def)
qed

lemma GetOrCreate_trace:
  assumes "GetOrCreate nas w = (err, nas', w')"
  shows "\<exists>evs. trace w' = trace w @ evs \<and> evs \<noteq> [] \<and> list_all (\<lambda>ev. written_version ev = None) evs \<and>
              (err = None \<longrightarrow> observed_version (last evs) = Some (ResourceVersion nas'))"
proof -
  obtain e1 n1 w1 where g1: "Get nas w = (e1, n1, w1)" by (cases "Get nas w")
  from Get_trace[OF g1] obtain ev1 where t1: "trace w1 = trace w @ [ev1]" "written_version ev1 = None"
     "e1 = None \<longrightarrow> observed_version ev1 = Some (ResourceVersion n1)" by blast
  show ?thesis
  proof (cases e1)
    case None
    with g1 assms t1 show ?thesis by (auto simp: GetOrCreate_def)
  next
    case (Some e)
    show ?thesis
    proof (cases "IsNotFound e")
      case False
      with Some g1 assms t1 show ?thesis by (auto simp: GetOrCreate_def)
    next
      case True
      obtain e2 n2 w2 where g2: "Create n1 w1 = (e2, n2, w2)" by (cases "Create n1 w1")
      from Create_trace[OF g2] obtain ev2 where t2: "trace w2 = trace w1 @ [ev2]" "written_version ev2 = None"
        "e2 = None \<longrightarrow> observed_version ev2 = Some (ResourceVersion n2)" by blast
      show ?thesis
      proof (cases e2)
        case None
        with Some True g1 g2 assms t1 t2 show ?thesis by (auto simp: GetOrCreate_def)
      next
        case (Some e')
        note e2 = Some
        show ?thesis
        proof (cases "IsAlreadyExists e'")
          case False
          with e2 \<open>e1 = Some e\<close> True g1 g2 assms t1 t2 show ?thesis by (auto simp: GetOrCreate_def)
        next
          case ae: True
          from e2 \<open>e1 = Some e\<close> True ae g1 g2 assms have g3: "Get n2 w2 = (err, nas', w')"
            by (simp add: GetOrCreate_def)
          from Get_trace[OF g3] obtain ev3 where t3: "trace w' = trace w2 @ [ev3]" "written_version ev3 = None"
            "err = None \<longrightarrow> observed_version ev3 = Some (ResourceVersion nas')" by blast
          from t1 t2 t3 show ?thesis by auto
        qed
      qed
    qed
  qed
qed

lemma fresh_writes_no_write:
  "list_all (\<lambda>ev. written_version ev = None) evs \<Longrightarrow> fresh_writes p evs"
  by (induction evs arbitrary: p) auto

lemma fresh_writes_append:
  "fresh_writes p xs \<Longrightarrow> fresh_writes (if xs = [] then p else Some (last xs)) ys \<Longrightarrow> fresh_writes p (xs @ ys)"
proof (induction xs arbitrary: p)
  case Nil
  then show ?case by simp
next
  case (Cons a xs)
  show ?case
  proof (cases "xs = []")
    case True
    with Cons.prems show ?thesis by simp
  next
    case False
    with Cons.prems Cons.IH[of "Some a"] show ?thesis by simp
  qed
qed

lemma fresh_writes_None_any: "fresh_writes None evs \<Longrightarrow> fresh_writes p evs"
  by (cases evs) (auto split: option.splits)

lemma attempt_trace:
  assumes "SetStatus_attempt st (nas, w) = (err, nas', w')"
  shows "\<exists>evs. trace w' = trace w @ evs \<and> fresh_writes None evs"
proof -
  obtain e1 n1 w1 where g: "GetOrCreate nas w = (e1, n1, w1)" by (cases "GetOrCreate nas w")
  from GetOrCreate_trace[OF g] obtain evs where t1: "trace w1 = trace w @ evs" "evs \<noteq> []"
     "list_all (\<lambda>ev. written_version ev = None) evs"
     "e1 = None \<longrightarrow> observed_version (last evs) = Some (ResourceVersion n1)" by blast
  show ?thesis
  proof (cases e1)
    case (Some e)
    with g assms t1 show ?thesis by (auto simp: SetStatus_attempt_def fresh_writes_no_write)
  next
    case None
    with g assms have u: "UpdateStatus n1 st w1 = (err, nas', w')" by (simp add: SetStatus_attempt_def)
    obtain res w2 where c: "call_Update w1 (n1\<lparr>Status := st\<rparr>) = (res, w2)"
      by (cases "call_Update w1 (n1\<lparr>Status := st\<rparr>)")
    from u c have "w' = w2" by (cases res) (auto simp: UpdateStatus_def)
    with trace_call_Update[OF c] have t2: "trace w' = trace w1 @ [EvUpdate (n1\<lparr>Status := st\<rparr>) res]" by simp
    have "fresh_writes None (evs @ [EvUpdate (n1\<lparr>Status := st\<rparr>) res])"
      using t1 None by (intro fresh_writes_append) (auto simp: fresh_writes_no_write)
    with t1 t2 show ?thesis by auto
  qed
qed

lemma Retry_trace:
  "RetryOnConflict n (SetStatus_attempt st) lastErr (nas, w) = (err, nas', w') \<Longrightarrow>
   \<exists>evs. trace w' = trace w @ evs \<and> fresh_writes None evs"
proof (induction n arbitrary: lastErr nas w)
  case 0
  then show ?case by auto
next
  case (Suc n)
  obtain e1 n1 w1 where a: "SetStatus_attempt st (nas, w) = (e1, n1, w1)"
    by (cases "SetStatus_attempt st (nas, w)")
  from attempt_trace[OF a] obtain evs1 where t1: "trace w1 = trace w @ evs1" "fresh_writes None evs1" by blast
  show ?case
  proof (cases "\<exists>e. e1 = Some e \<and> IsConflict e")
    case False
    with a Suc.prems t1 show ?thesis by (cases e1) auto
  next
    case True
    then obtain e where e: "e1 = Some e" "IsConflict e" by blast
    with a Suc.prems have "RetryOnConflict n (SetStatus_attempt st) (Some e) (n1, w1) = (err, nas', w')"
      by simp
    from Suc.IH[OF this] obtain evs2 where t2: "trace w' = trace w1 @ evs2" "fresh_writes None evs2" by blast
    have "fresh_writes None (evs1 @ evs2)"
      using t1 t2 by (intro fresh_writes_append) (auto intro: fresh_writes_None_any)
    with t1 t2 show ?thesis by auto
  qed
qed

text \<open>
  C1. In the conflict-retry loop of \<open>SetStatus\<close>, every write request among the calls it
  makes comes directly after a successful fetch of the same attempt (each attempt starts
  with \<open>GetOrCreate\<close>) and is tied to the version that this fetch returned; no write uses
  a version observed by an earlier attempt.
\<close>

theorem SetStatus_refetches_before_every_write:
  "fresh_writes None (drop (length (trace w)) (trace (snd (SetStatus config w))))"
proof -
  obtain err nas' w' where r: "RetryOnConflict DefaultRetry_Steps (SetStatus_attempt (status (flags config))) None
             (nascrd config, w) = (err, nas', w')"
    by (metis prod_cases3)
  from Retry_trace[OF r] obtain evs where "trace w' = trace w @ evs" "fresh_writes None evs" by blast
  with r show ?thesis by (simp add: SetStatus_def)
qed

theorem SetStatus_refetches_before_every_write_witness:
  "fresh_writes None (drop (length (trace conflict_world))
       (trace (snd (SetStatus example_config conflict_world))))
   \<and> fst (SetStatus example_config conflict_world) = None
   \<and> map written_version (trace (snd (SetStatus example_config conflict_world)))
       = [None, None, Some 1, None, Some 2]
   \<and> map observed_version (trace (snd (SetStatus example_config conflict_world)))
       = [None, Some 1, None, Some 2, None]
   \<and> map Status (objects (snd (SetStatus example_config conflict_world))) = [''Ready'']"
  using SetStatus_refetches_before_every_write [of conflict_world example_config]
  by code_simp

section \<open>Validation of the status flag\<close>

lemma ToLower_Ready: "ToLower NodeAllocationStateStatusReady = ''ready''"
  by code_simp

lemma ToLower_NotReady: "ToLower NodeAllocationStateStatusNotReady = ''notready''"
  by code_simp

text \<open>
  C6. Validation is case-insensitive and normalizing: a status whose lower-case form is
  that of \<open>Ready\<close> (so \<open>ready\<close>, \<open>READY\<close>, \<open>Ready\<close>) or of \<open>NotReady\<close> is replaced by
  the canonical value; every other string is rejected with a validation error, and then
  \<open>RunE\<close> returns with the world untouched: no configuration resolved, no client
  constructed, no request issued.
\<close>

theorem ValidateFlags_case_insensitive:
  "(ToLower (status f) = ToLower NodeAllocationStateStatusReady \<longrightarrow>
      ValidateFlags f = Inr (f\<lparr>status := ''Ready''\<rparr>))
   \<and> (ToLower (status f) = ToLower NodeAllocationStateStatusNotReady \<longrightarrow>
      ValidateFlags f = Inr (f\<lparr>status := ''NotReady''\<rparr>))
   \<and> (ToLower (status f) \<noteq> ToLower NodeAllocationStateStatusReady \<and>
      ToLower (status f) \<noteq> ToLower NodeAllocationStateStatusNotReady \<longrightarrow>
      ValidateFlags f = Inl (ErrorString (''unknown status: '' @ status f)) \<and>
      RunE f w = (Some (ErrorString (''validate flags: unknown status: '' @ status f)), w))
   \<and> ValidateFlags (f\<lparr>status := ''ready''\<rparr>) = Inr (f\<lparr>status := ''Ready''\<rparr>)
   \<and> ValidateFlags (f\<lparr>status := ''READY''\<rparr>) = Inr (f\<lparr>status := ''Ready''\<rparr>)
   \<and> ValidateFlags (f\<lparr>status := ''Ready''\<rparr>) = Inr (f\<lparr>status := ''Ready''\<rparr>)"
proof -
  have l1: "ToLower ''ready'' = ''ready''" by code_simp
  have l2: "ToLower ''READY'' = ''ready''" by code_simp
  have l3: "ToLower ''Ready'' = ''ready''" by code_simp
  have l4: "ToLower ''NotReady'' = ''notready''" by code_simp
  show ?thesis
    by (simp add: ValidateFlags_def RunE_def Errorf_def l1 l2 l3 l4
        NodeAllocationStateStatusReady_def NodeAllocationStateStatusNotReady_def)
qed

theorem ValidateFlags_case_insensitive_witness:
  "ValidateFlags \<lparr>kubeconfig = [], status = ''rEaDy''\<rparr> = Inr \<lparr>kubeconfig = [], status = ''Ready''\<rparr>
   \<and> ValidateFlags \<lparr>kubeconfig = [], status = ''NOTready''\<rparr> = Inr \<lparr>kubeconfig = [], status = ''NotReady''\<rparr>
   \<and> ValidateFlags \<lparr>kubeconfig = [], status = ''Ready ''\<rparr> = Inl (ErrorString ''unknown status: Ready '')
   \<and> RunE \<lparr>kubeconfig = [], status = ''Ready ''\<rparr> example_world
       = (Some (ErrorString ''validate flags: unknown status: Ready ''), example_world)"
proof -
  have a: "ToLower ''rEaDy'' = ToLower NodeAllocationStateStatusReady" by code_simp
  have b: "ToLower ''NOTready'' = ToLower NodeAllocationStateStatusNotReady" by code_simp
  have c: "ToLower ''Ready '' \<noteq> ToLower NodeAllocationStateStatusReady" by code_simp
  have d: "ToLower ''Ready '' \<noteq> ToLower NodeAllocationStateStatusNotReady" by code_simp
  show ?thesis
    using a b c d
      ValidateFlags_case_insensitive [of "\<lparr>kubeconfig = [], status = ''rEaDy''\<rparr>" example_world]
      ValidateFlags_case_insensitive [of "\<lparr>kubeconfig = [], status = ''NOTready''\<rparr>" example_world]
      ValidateFlags_case_insensitive [of "\<lparr>kubeconfig = [], status = ''Ready ''\<rparr>" example_world]
    by simp
qed

section \<open>The exit code of the status-setter tool\<close>

text \<open>
  C5. On a failure the tool prints the error, but its exit code is 0, not non-zero:
  \<open>main\<close> returns after printing, for every command line and world, as when the
  status flag is missing.
\<close>

theorem main_exit_code_zero_on_failure:
  "exit_code (fst (main args w)) = 0
   \<and> fst (Execute [] example_world) = Some (ErrorString ''validate flags: unknown status: '')
   \<and> fst (main [] example_world)
       = \<lparr>stdout = ''Error: validate flags: unknown status: '' @ [CHR 0x0A], exit_code = 0\<rparr>"
proof -
  have "exit_code (fst (main args w)) = 0"
    by (simp add: main_def split: prod.splits option.splits)
  moreover have "fst (Execute [] example_world) = Some (ErrorString ''validate flags: unknown status: '')"
    by code_simp
  moreover have "fst (main [] example_world)
       = \<lparr>stdout = ''Error: validate flags: unknown status: '' @ [CHR 0x0A], exit_code = 0\<rparr>"
    by code_simp
  ultimately show ?thesis by simp
qed

section \<open>Resolution of the client configuration\<close>

text \<open>
  C4, as stated, fails: with the flag \<open>--kubeconfig=/flag/config\<close> and the variable
  \<open>KUBECONFIG=/env/config\<close> both given, the configuration is built from the variable's
  path, in both programs.
\<close>

theorem kubeconfig_flag_preferred_counterexample:
  "kubeconfig \<lparr>kubeconfig = ''/flag/config'', status = ''Ready''\<rparr> \<noteq> []
   \<and> trace (snd (snd (GetClientsetConfig \<lparr>kubeconfig = ''/flag/config'', status = ''Ready''\<rparr> env_override_world)))
       = [EvBuildConfigFromFlags [] ''/env/config'']
   \<and> trace (snd (snd (GetClientsetConfig_controller
         \<lparr>ctl_kubeconfig = ''/flag/config'', kubeAPIQPS = 5, kubeAPIBurst = 10, workers = 10,
          httpEndpoint = [], metricsPath = ''/metrics'', profilePath = []\<rparr> env_override_world)))
       = [EvBuildConfigFromFlags [] ''/env/config'']"
  by code_simp

text \<open>
  C4, amended. Both programs resolve the client configuration from the path in
  \<open>KUBECONFIG\<close> when that variable is non-empty, whatever the flag says; otherwise from
  the path of the \<open>--kubeconfig\<close> flag when it is non-empty; and from the in-cluster
  credentials only when neither is given. Exactly one such call is made.
\<close>

theorem kubeconfig_environment_preferred:
  "trace (snd (snd (GetClientsetConfig f w)))
     = trace w @ [config_call (Getenv (environ w) ''KUBECONFIG'') (kubeconfig f)]
   \<and> trace (snd (snd (GetClientsetConfig_controller cf w)))
     = trace w @ [config_call (Getenv (environ w) ''KUBECONFIG'') (ctl_kubeconfig cf)]"
  by (simp add: GetClientsetConfig_def GetClientsetConfig_controller_def config_call_def Let_def emit_def
      split: sum.splits)

section \<open>Binding flags to environment variables\<close>

lemma FlagName_bind_env: "FlagName (fst (bind_env env f)) = FlagName f"
  by (simp add: bind_env_def split: option.splits prod.splits)


lemma bind_env_unset: "viper_Get env (FlagName f) = None \<Longrightarrow> bind_env env f = (f, [])"
  by (simp add: bind_env_def viper_IsSet_def)






section \<open>Running the tool without a status\<close>

lemma FlagSet_Set_other:
  "FlagSet_Set fs n v = Inr fs' \<Longrightarrow> n \<noteq> m \<Longrightarrow>
   find (\<lambda>f. FlagName f = m) fs' = find (\<lambda>f. FlagName f = m) fs"
  by (induction fs arbitrary: fs') (auto split: if_splits option.splits sum.splits prod.splits)

lemma ParseFlags_other:
  "ParseFlags fs args = Inr fs' \<Longrightarrow> m \<notin> fst ` set args \<Longrightarrow>
   find (\<lambda>f. FlagName f = m) fs' = find (\<lambda>f. FlagName f = m) fs"
proof (induction args arbitrary: fs)
  case Nil
  then show ?case by simp
next
  case (Cons a args)
  obtain n v where a: "a = (n, v)" by (cases a)
  with Cons.prems obtain fs1 where s: "FlagSet_Set fs n v = Inr fs1" "ParseFlags fs1 args = Inr fs'"
    by (auto split: sum.splits)
  from Cons.prems a have "n \<noteq> m" "m \<notin> fst ` set args" by auto
  with Cons.IH[OF s(2)] FlagSet_Set_other[OF s(1)] show ?case by simp
qed

lemma flag_value_find:
  "flag_value fs m d = (case find (\<lambda>f. FlagName f = m) fs of None \<Rightarrow> d | Some f \<Rightarrow> Value f)"
  by (induction fs) auto

lemma find_PersistentPreRunE:
  "find (\<lambda>f. FlagName f = m) (fst (PersistentPreRunE env fs))
     = map_option (\<lambda>f. fst (bind_env env f)) (find (\<lambda>f. FlagName f = m) fs)"
  by (induction fs) (auto simp: PersistentPreRunE_def FlagName_bind_env)

lemma RunE_empty_status:
  "status f = [] \<Longrightarrow> RunE f w = (Some (ErrorString ''validate flags: unknown status: ''), w)"
proof -
  assume s: "status f = []"
  have a: "ToLower [] \<noteq> ToLower NodeAllocationStateStatusReady" by code_simp
  have b: "ToLower [] \<noteq> ToLower NodeAllocationStateStatusNotReady" by code_simp
  from s a b show ?thesis by (simp add: RunE_def ValidateFlags_def Errorf_def)
qed

text \<open>
  C10, amended. When the command line has no \<open>--status\<close> flag and the environment
  variable \<open>STATUS\<close> is unset or empty, the run leaves the world untouched: no
  configuration is resolved, no client constructed, nothing read or written. When, in
  addition, the command line parses and does not ask for help, the run fails with the
  validation error for the empty status.
\<close>

theorem no_status_fails_validation:
  assumes "''status'' \<notin> fst ` set args"
      and "environ w ''STATUS'' = None \<or> environ w ''STATUS'' = Some []"
  shows "snd (snd (Execute args w)) = w \<and>
         (\<forall>fs. ParseFlags (AddFlags @ [help_flag]) args = Inr fs \<and> \<not> GetBool fs ''help'' \<longrightarrow>
            Execute args w = (Some (ErrorString ''validate flags: unknown status: ''), [], w))"
proof (cases "ParseFlags (AddFlags @ [help_flag]) args")
  case (Inl e)
  then show ?thesis by (simp add: Execute_def)
next
  case (Inr fs)
  have k: "env_key ''status'' = ''STATUS''" by code_simp
  from assms(2) have unset: "viper_Get (environ w) ''status'' = None"
    by (auto simp: viper_Get_def k)
  have "find (\<lambda>f. FlagName f = ''status'') fs
          = find (\<lambda>f. FlagName f = ''status'') (AddFlags @ [help_flag])"
    using ParseFlags_other[OF Inr assms(1)] .
  also have "\<dots> = Some \<lparr>FlagName = ''status'', Changed = False, Value = [], SetValue = String_Set\<rparr>"
    by (simp add: AddFlags_def help_flag_def)
  finally have "status (Flags_of (fst (PersistentPreRunE (environ w) fs))) = []"
    using unset
    by (simp add: Flags_of_def flag_value_find find_PersistentPreRunE bind_env_unset)
  from RunE_empty_status[OF this] Inr show ?thesis by (simp add: Execute_def)
qed

theorem no_status_fails_validation_witness:
  "Execute [(''kubeconfig'', ''/etc/kube.config''), (''help'', ''false'')] example_world
     = (Some (ErrorString ''validate flags: unknown status: ''), [], example_world)
   \<and> snd (snd (Execute [(''help'', ''true'')] example_world)) = example_world"
proof -
  let ?args = "[(''kubeconfig'', ''/etc/kube.config''), (''help'', ''false'')]"
  let ?fs = "[\<lparr>FlagName = ''kubeconfig'', Changed = True, Value = ''/etc/kube.config'', SetValue = String_Set\<rparr>,
              \<lparr>FlagName = ''status'', Changed = False, Value = [], SetValue = String_Set\<rparr>,
              \<lparr>FlagName = ''help'', Changed = True, Value = ''false'', SetValue = Bool_Set\<rparr>]"
  have a: "''status'' \<notin> fst ` set ?args" by simp
  have a': "''status'' \<notin> fst ` set [(''help'', ''true'')]" by simp
  have b: "environ example_world ''STATUS'' = None \<or> environ example_world ''STATUS'' = Some []"
    by code_simp
  have c: "ParseFlags (AddFlags @ [help_flag]) ?args = Inr ?fs"
    by (simp add: AddFlags_def help_flag_def String_Set_def Bool_Set_def ParseBool_def FormatBool_def)
  have d: "\<not> GetBool ?fs ''help''"
    by (simp add: GetBool_def ParseBool_def FormatBool_def)
  from no_status_fails_validation [OF a b, THEN conjunct2, rule_format, of ?fs] c d
       no_status_fails_validation [OF a' b, THEN conjunct1]
  show ?thesis by simp
qed

text \<open>
  C10, as stated, fails: with no \<open>--status\<close> flag but \<open>STATUS=ready\<close> in the
  environment, validation succeeds, the clients are constructed, the node is fetched and
  the status is written.
\<close>

theorem no_status_flag_counterexample:
  "''status'' \<notin> fst ` set ([] :: (string \<times> string) list)
   \<and> fst (Execute [] env_status_world) = None
   \<and> take 4 (trace (snd (snd (Execute [] env_status_world))))
        = [EvInClusterConfig, EvNewCoreClient, EvNewExampleClient, EvGetNode ''n1'']
   \<and> map Status (objects (snd (snd (Execute [] env_status_world)))) = [''Ready'']"
  by code_simp

section \<open>The store under concurrent clients\<close>

lemma lookup_has_key: "lookup objs ns name = Some r \<Longrightarrow> has_key ns name r"
  by (auto simp: lookup_def find_Some_iff)

lemma lookup_None_iff: "lookup objs ns name = None \<longleftrightarrow> (ns, name) \<notin> set (map (\<lambda>r. (Namespace r, Name r)) objs)"
  by (induction objs) (auto simp: lookup_def has_key_def)

lemma lookup_snoc:
  "lookup (objs @ [r]) ns name =
     (case lookup objs ns name of
        Some x \<Rightarrow> Some x
      | None \<Rightarrow> if has_key ns name r then Some r else None)"
  by (induction objs) (auto simp: lookup_def)

lemma lookup_replace_same:
  "has_key ns name r' \<Longrightarrow>
   lookup (map (\<lambda>ob. if has_key ns name ob then r' else ob) objs) ns name
     = (case lookup objs ns name of None \<Rightarrow> None | Some x \<Rightarrow> Some r')"
  by (induction objs) (auto simp: lookup_def)

lemma lookup_replace_other:
  "has_key ns' name' r' \<Longrightarrow> (ns', name') \<noteq> (ns, name) \<Longrightarrow>
   lookup (map (\<lambda>ob. if has_key ns' name' ob then r' else ob) objs) ns name = lookup objs ns name"
  by (induction objs) (auto simp: lookup_def has_key_def)

lemma keys_replace:
  "has_key ns name r' \<Longrightarrow>
   map ((\<lambda>r. (Namespace r, Name r)) \<circ> (\<lambda>ob. if has_key ns name ob then r' else ob)) objs
     = map (\<lambda>r. (Namespace r, Name r)) objs"
  by (induction objs) (auto simp: has_key_def)

lemma unique_keys_filter:
  "unique_keys objs \<Longrightarrow> lookup objs ns name = Some r \<Longrightarrow>
   length (filter (has_key ns name) objs) = 1"
proof (induction objs)
  case Nil
  then show ?case by (simp add: lookup_def)
next
  case (Cons a objs)
  show ?case
  proof (cases "has_key ns name a")
    case True
    with Cons.prems have "(ns, name) \<notin> set (map (\<lambda>r. (Namespace r, Name r)) objs)"
      by (auto simp: unique_keys_def has_key_def)
    then have "filter (has_key ns name) objs = []"
      by (auto simp: filter_empty_conv has_key_def)
    with True show ?thesis by simp
  next
    case False
    with Cons show ?thesis by (auto simp: unique_keys_def lookup_def)
  qed
qed

lemma api_Create_unique:
  "unique_keys (objects w) \<Longrightarrow> unique_keys (objects (snd (api_Create w r)))"
  by (auto simp: api_Create_def Let_def unique_keys_def lookup_None_iff split: option.splits)

lemma api_Update_unique:
  assumes "unique_keys (objects w)"
  shows "unique_keys (objects (snd (api_Update w r)))"
proof (cases "lookup (objects w) (Namespace r) (Name r)")
  case None
  with assms show ?thesis by (simp add: api_Update_def)
next
  case (Some cur)
  let ?r' = "r\<lparr>UID := UID cur, ResourceVersion := Suc (revision w)\<rparr>"
  have k: "has_key (Namespace r) (Name r) ?r'" by (simp add: has_key_def)
  from Some assms show ?thesis
    by (simp add: api_Update_def Let_def unique_keys_def keys_replace[OF k])
qed

lemma api_Create_uid:
  "uid_at (objects w) ns name = Some u \<Longrightarrow> uid_at (objects (snd (api_Create w r))) ns name = Some u"
  by (auto simp: api_Create_def Let_def uid_at_def lookup_snoc split: option.splits)

lemma api_Update_uid:
  assumes "uid_at (objects w) ns name = Some u"
  shows "uid_at (objects (snd (api_Update w r))) ns name = Some u"
proof (cases "lookup (objects w) (Namespace r) (Name r)")
  case None
  with assms show ?thesis by (simp add: api_Update_def)
next
  case (Some cur)
  show ?thesis
  proof (cases "ResourceVersion r \<noteq> ResourceVersion cur")
    case True
    with Some assms show ?thesis by (simp add: api_Update_def)
  next
    case False
    let ?r' = "r\<lparr>UID := UID cur, ResourceVersion := Suc (revision w)\<rparr>"
    have k: "has_key (Namespace r) (Name r) ?r'" by (simp add: has_key_def)
    show ?thesis
    proof (cases "(Namespace r, Name r) = (ns, name)")
      case True
      with Some False assms lookup_replace_same[OF k, of "objects w"] show ?thesis
        by (auto simp: api_Update_def Let_def uid_at_def)
    next
      case ne: False
      with Some False assms lookup_replace_other[OF k ne, of "objects w"] show ?thesis
        by (auto simp: api_Update_def Let_def uid_at_def)
    qed
  qed
qed

lemma env_step_unique: "unique_keys (objects w) \<Longrightarrow> unique_keys (objects (env_step a w))"
  by (cases a) (auto simp: api_Create_unique api_Update_unique split: option.splits)

lemma env_step_uid:
  "uid_at (objects w) ns name = Some u \<Longrightarrow> uid_at (objects (env_step a w)) ns name = Some u"
  by (cases a) (auto simp: api_Create_uid api_Update_uid split: option.splits)

lemma fold_env_step_unique:
  "unique_keys (objects w) \<Longrightarrow> unique_keys (objects (fold env_step acts w))"
  by (induction acts arbitrary: w) (simp_all add: env_step_unique)

lemma fold_env_step_uid:
  "uid_at (objects w) ns name = Some u \<Longrightarrow> uid_at (objects (fold env_step acts w)) ns name = Some u"
  by (induction acts arbitrary: w) (simp_all add: env_step_uid)

lemma interfere_unique: "unique_keys (objects w) \<Longrightarrow> unique_keys (objects (interfere w))"
  by (auto simp: interfere_def split: list.splits intro!: fold_env_step_unique)

lemma interfere_uid:
  "uid_at (objects w) ns name = Some u \<Longrightarrow> uid_at (objects (interfere w)) ns name = Some u"
  by (auto simp: interfere_def split: list.splits intro!: fold_env_step_uid)

lemma objects_emit [simp]: "objects (emit ev w) = objects w"
  and journal_emit [simp]: "journal (emit ev w) = journal w"
  and revision_emit [simp]: "revision (emit ev w) = revision w"
  and others_emit [simp]: "others (emit ev w) = others w"
  and nodes_emit [simp]: "nodes (emit ev w) = nodes w"
  and environ_emit [simp]: "environ (emit ev w) = environ w"
  by (simp_all add: emit_def)

lemma Get_found:
  assumes "uid_at (objects w) (Namespace nas) (Name nas) = Some u"
      and "Get nas w = (err, nas', w')"
  shows "err = None \<and> lookup (objects w') (Namespace nas) (Name nas) = Some nas' \<and> UID nas' = u \<and>
         objects w' = objects (interfere w) \<and> journal w' = journal (interfere w)"
proof -
  from interfere_uid[OF assms(1)] obtain r where
    r: "lookup (objects (interfere w)) (Namespace nas) (Name nas) = Some r" "UID r = u"
    by (auto simp: uid_at_def)
  with assms(2) show ?thesis
    by (auto simp: Get_def call_Get_def api_Get_def Let_def)
qed

lemma GetOrCreate_resolves:
  assumes "unique_keys (objects w)" and "GetOrCreate nas w = (err, nas', w')"
  shows "err = None \<and> lookup (objects w') (Namespace nas) (Name nas) = Some nas' \<and>
         unique_keys (objects w')"
proof -
  let ?ns = "Namespace nas" and ?name = "Name nas"
  let ?w1 = "interfere w"
  have u1: "unique_keys (objects ?w1)" using assms(1) by (rule interfere_unique)
  show ?thesis
  proof (cases "lookup (objects ?w1) ?ns ?name")
    case (Some r)
    with assms(2) u1 show ?thesis
      by (auto simp: GetOrCreate_def Get_def call_Get_def api_Get_def Let_def)
  next
    case None
    let ?wa = "emit (EvGet ?ns ?name (Inl (StatusError NotFound ''not found''))) ?w1"
    from None have g: "Get nas w = (Some (StatusError NotFound ''not found''), nas, ?wa)"
      by (simp add: Get_def call_Get_def api_Get_def Let_def)
    let ?w2 = "interfere ?wa"
    have u2: "unique_keys (objects ?w2)" using u1 by (intro interfere_unique) simp
    show ?thesis
    proof (cases "lookup (objects ?w2) ?ns ?name")
      case None
      let ?r' = "nas\<lparr>UID := Suc (revision ?w2), ResourceVersion := Suc (revision ?w2)\<rparr>"
      from None have c: "api_Create ?w2 nas = (Inr ?r', ?w2\<lparr>objects := objects ?w2 @ [?r'],
            revision := Suc (revision ?w2), journal := journal ?w2 @ [?r']\<rparr>)"
        by (simp add: api_Create_def Let_def)
      have "unique_keys (objects (snd (api_Create ?w2 nas)))" using u2 by (rule api_Create_unique)
      with c have u3: "unique_keys (objects ?w2 @ [?r'])" by simp
      from g c assms(2) None u3 show ?thesis
        by (auto simp: GetOrCreate_def Create_def call_Create_def lookup_snoc has_key_def)
    next
      case (Some cur)
      let ?wb = "emit (EvCreate nas (Inl (StatusError AlreadyExists ''already exists''))) ?w2"
      from Some have c: "Create nas ?wa = (Some (StatusError AlreadyExists ''already exists''), nas, ?wb)"
        by (simp add: Create_def call_Create_def api_Create_def Let_def)
      from g c assms(2) have g2: "Get nas ?wb = (err, nas', w')"
        by (simp add: GetOrCreate_def)
      from Some have "uid_at (objects ?wb) ?ns ?name = Some (UID cur)" by (simp add: uid_at_def)
      from Get_found[OF this g2] have r: "err = None" "lookup (objects w') ?ns ?name = Some nas'"
        "objects w' = objects (interfere ?wb)" by auto
      have "unique_keys (objects (interfere ?wb))" using u2 by (intro interfere_unique) simp
      with r show ?thesis by simp
    qed
  qed
qed

section \<open>The status client\<close>

text \<open>
  C2. A call to \<open>UpdateStatus\<close> with an observed record (the record is stored when the
  write arrives, after the other clients' turn) has one of two outcomes. If the stored
  version is the observed one, the call succeeds with exactly one persisted write: the
  journal grows by the new record, which carries the new status, and that record replaces
  the stored one. If another writer has changed the version, the call fails with a
  conflict and persists nothing: records, journal and revision are as they were.
\<close>

theorem UpdateStatus_applies_or_conflicts:
  assumes "lookup (objects (interfere w)) (Namespace nas) (Name nas) = Some cur"
  shows "case UpdateStatus nas st w of
           (err, nas', w') \<Rightarrow>
             if ResourceVersion nas = ResourceVersion cur then
               err = None \<and>
               nas' = nas\<lparr>Status := st, UID := UID cur, ResourceVersion := Suc (revision (interfere w))\<rparr> \<and>
               journal w' = journal (interfere w) @ [nas'] \<and>
               revision w' = Suc (revision (interfere w)) \<and>
               objects w' = map (\<lambda>ob. if has_key (Namespace nas) (Name nas) ob then nas' else ob)
                                (objects (interfere w)) \<and>
               lookup (objects w') (Namespace nas) (Name nas) = Some nas'
             else
               err = Some (StatusError Conflict ''the object has been modified'') \<and>
               nas' = nas \<and>
               journal w' = journal (interfere w) \<and>
               revision w' = revision (interfere w) \<and>
               objects w' = objects (interfere w)"
proof (cases "ResourceVersion nas = ResourceVersion cur")
  case False
  with assms show ?thesis
    by (simp add: UpdateStatus_def call_Update_def api_Update_def Let_def)
next
  case True
  let ?r' = "nas\<lparr>Status := st, UID := UID cur, ResourceVersion := Suc (revision (interfere w))\<rparr>"
  have k: "has_key (Namespace nas) (Name nas) ?r'" by (simp add: has_key_def)
  from True assms lookup_replace_same[OF k, of "objects (interfere w)"] show ?thesis
    by (simp add: UpdateStatus_def call_Update_def api_Update_def Let_def)
qed

theorem UpdateStatus_applies_or_conflicts_witness:
  "fst (UpdateStatus stored_record ''Ready'' stored_world) = None
   \<and> journal (snd (snd (UpdateStatus stored_record ''Ready'' stored_world)))
        = [stored_record, stored_record\<lparr>Status := ''Ready'', ResourceVersion := 2\<rparr>]
   \<and> objects (snd (snd (UpdateStatus stored_record ''Ready'' stored_world)))
        = [stored_record\<lparr>Status := ''Ready'', ResourceVersion := 2\<rparr>]
   \<and> fst (UpdateStatus stored_record ''Ready''
            (stored_world\<lparr>others := [[OtherSetStatus ''ns'' ''n1'' ''NotReady'']]\<rparr>))
        = Some (StatusError Conflict ''the object has been modified'')
   \<and> objects (snd (snd (UpdateStatus stored_record ''Ready''
            (stored_world\<lparr>others := [[OtherSetStatus ''ns'' ''n1'' ''NotReady'']]\<rparr>))))
        = [stored_record\<lparr>Status := ''NotReady'', ResourceVersion := 2\<rparr>]"
proof -
  let ?w2 = "stored_world\<lparr>others := [[OtherSetStatus ''ns'' ''n1'' ''NotReady'']]\<rparr>"
  have a: "lookup (objects (interfere stored_world)) (Namespace stored_record) (Name stored_record)
             = Some stored_record"
    by code_simp
  have b: "lookup (objects (interfere ?w2)) (Namespace stored_record) (Name stored_record)
             = Some (stored_record\<lparr>Status := ''NotReady'', ResourceVersion := 2\<rparr>)"
    by code_simp
  have c: "objects (interfere stored_world) = [stored_record]" "journal (interfere stored_world) = [stored_record]"
     "revision (interfere stored_world) = 1"
     "objects (interfere ?w2) = [stored_record\<lparr>Status := ''NotReady'', ResourceVersion := 2\<rparr>]"
     "has_key (Namespace stored_record) (Name stored_record) stored_record"
     "ResourceVersion stored_record = 1" "UID stored_record = 1"
    by code_simp+
  from UpdateStatus_applies_or_conflicts [OF a, of "''Ready''"]
       UpdateStatus_applies_or_conflicts [OF b, of "''Ready''"] c
  show ?thesis
    by (simp split: prod.splits)
qed

text \<open>
  C3. \<open>GetOrCreate\<close> is idempotent. From a store with unique keys, and whatever other
  clients do in between (a creator racing on the same key included: the already-exists
  answer is followed by a fetch), two calls in a row both succeed and return the record
  of the same key with the same UID; the store still has unique keys and holds exactly
  one record for the key; and the second call persists nothing itself.
\<close>

theorem GetOrCreate_idempotent:
  assumes "unique_keys (objects w)"
      and "GetOrCreate nas w = (err1, nas1, w1)"
      and "GetOrCreate nas1 w1 = (err2, nas2, w2)"
  shows "err1 = None \<and> err2 = None \<and>
         has_key (Namespace nas) (Name nas) nas1 \<and>
         has_key (Namespace nas) (Name nas) nas2 \<and>
         UID nas2 = UID nas1 \<and>
         unique_keys (objects w2) \<and>
         length (filter (has_key (Namespace nas) (Name nas)) (objects w2)) = 1 \<and>
         journal w2 = journal (interfere w1)"
proof -
  from GetOrCreate_resolves[OF assms(1,2)] have 1: "err1 = None"
    "lookup (objects w1) (Namespace nas) (Name nas) = Some nas1" "unique_keys (objects w1)" by auto
  from lookup_has_key[OF 1(2)] have k1: "has_key (Namespace nas) (Name nas) nas1" .
  then have key: "Namespace nas1 = Namespace nas" "Name nas1 = Name nas" by (auto simp: has_key_def)
  from GetOrCreate_resolves[OF 1(3) assms(3)] have 2: "err2 = None"
    "lookup (objects w2) (Namespace nas) (Name nas) = Some nas2" "unique_keys (objects w2)"
    by (auto simp: key)
  from lookup_has_key[OF 2(2)] have k2: "has_key (Namespace nas) (Name nas) nas2" .
  from 1(2) have u: "uid_at (objects w1) (Namespace nas1) (Name nas1) = Some (UID nas1)"
    by (simp add: uid_at_def key)
  obtain e n w' where g: "Get nas1 w1 = (e, n, w')" by (cases "Get nas1 w1")
  from Get_found[OF u g] have f: "e = None" "UID n = UID nas1" "journal w' = journal (interfere w1)" by auto
  with g assms(3) have "nas2 = n" "w2 = w'" by (auto simp: GetOrCreate_def)
  with f have "UID nas2 = UID nas1" "journal w2 = journal (interfere w1)" by auto
  with 1 2 k1 k2 unique_keys_filter[OF 2(3) 2(2)] show ?thesis by simp
qed

theorem GetOrCreate_idempotent_witness:
  "unique_keys (objects racing_world)
   \<and> fst (GetOrCreate (nascrd example_config) racing_world) = None
   \<and> UID (fst (snd (GetOrCreate (nascrd example_config) racing_world))) = 1
   \<and> (case GetOrCreate (nascrd example_config) racing_world of
         (err1, nas1, w1) \<Rightarrow>
           (case GetOrCreate nas1 w1 of
              (err2, nas2, w2) \<Rightarrow> err2 = None \<and> UID nas2 = 1 \<and> length (objects w2) = 1))
   \<and> length (filter (\<lambda>ev. case ev of EvCreate r (Inl e) \<Rightarrow> IsAlreadyExists e | _ \<Rightarrow> False)
        (trace (snd (snd (GetOrCreate (nascrd example_config) racing_world))))) = 1"
proof -
  have a: "unique_keys (objects racing_world)" by code_simp
  obtain err1 nas1 w1 where g1: "GetOrCreate (nascrd example_config) racing_world = (err1, nas1, w1)"
    by (cases "GetOrCreate (nascrd example_config) racing_world")
  obtain err2 nas2 w2 where g2: "GetOrCreate nas1 w1 = (err2, nas2, w2)"
    by (cases "GetOrCreate nas1 w1")
  have c: "UID (fst (snd (GetOrCreate (nascrd example_config) racing_world))) = 1"
    "length (filter (\<lambda>ev. case ev of EvCreate r (Inl e) \<Rightarrow> IsAlreadyExists e | _ \<Rightarrow> False)
        (trace (snd (snd (GetOrCreate (nascrd example_config) racing_world))))) = 1"
    "(case GetOrCreate (nascrd example_config) racing_world of
         (err1, nas1, w1) \<Rightarrow> length (objects (snd (snd (GetOrCreate nas1 w1)))) = 1)"
    by code_simp+
  from GetOrCreate_idempotent [OF a g1 g2] g1 g2 c a show ?thesis by simp
qed

section \<open>The record created for a node\<close>

lemma present_interfere: "present tmpl w \<Longrightarrow> present tmpl (interfere w)"
  using interfere_uid[of w "Namespace tmpl" "Name tmpl"]
  by (auto simp: present_def uid_at_def)

lemma present_emit [simp]: "present tmpl (emit ev w) = present tmpl w"
  by (simp add: present_def)

lemma present_api_Create: "present tmpl w \<Longrightarrow> present tmpl (snd (api_Create w r))"
  using api_Create_uid[of w "Namespace tmpl" "Name tmpl"]
  by (auto simp: present_def uid_at_def)

lemma present_api_Update: "present tmpl w \<Longrightarrow> present tmpl (snd (api_Update w r))"
  using api_Update_uid[of w "Namespace tmpl" "Name tmpl"]
  by (auto simp: present_def uid_at_def)

lemma Get_template:
  assumes "holds_template tmpl nas w" and "Get nas w = (err, nas', w')"
  shows "\<exists>ev. trace w' = trace w @ [ev] \<and> \<not> is_create ev \<and> holds_template tmpl nas' w' \<and>
              (err \<noteq> None \<longrightarrow> nas' = nas) \<and> (err = None \<longrightarrow> present tmpl w')"
proof -
  from assms(1) have k: "Namespace nas = Namespace tmpl" "Name nas = Name tmpl"
    by (auto simp: holds_template_def has_key_def)
  obtain res w1 where c: "call_Get w (Namespace nas) (Name nas) = (res, w1)"
    by (cases "call_Get w (Namespace nas) (Name nas)")
  then have w1: "w1 = emit (EvGet (Namespace nas) (Name nas) res) (interfere w)"
    and res: "res = api_Get (interfere w) (Namespace nas) (Name nas)"
    by (auto simp: call_Get_def Let_def)
  from trace_call_Get[OF c] have t: "trace w1 = trace w @ [EvGet (Namespace nas) (Name nas) res]" .
  show ?thesis
  proof (cases res)
    case (Inl e)
    with c assms(2) have r: "err = Some e" "nas' = nas" "w' = w1" by (auto simp: Get_def)
    from assms(1) have "holds_template tmpl nas w1"
      using present_interfere[of tmpl w] by (auto simp: holds_template_def w1)
    with r t assms(1) show ?thesis by (auto simp: is_create_def holds_template_def)
  next
    case (Inr r)
    with c assms(2) have r: "err = None" "nas' = r" "w' = w1" by (auto simp: Get_def)
    from Inr res have l: "lookup (objects (interfere w)) (Namespace tmpl) (Name tmpl) = Some r"
      by (auto simp: api_Get_def k split: option.splits)
    from lookup_has_key[OF l] l have "holds_template tmpl r w1" "present tmpl w1"
      by (simp_all add: holds_template_def present_def w1)
    with r t show ?thesis by (auto simp: is_create_def)
  qed
qed

lemma Get_NotFound_absent:
  assumes "Get nas w = (Some e, nas', w')" and "IsNotFound e"
      and "Namespace nas = Namespace tmpl" "Name nas = Name tmpl"
  shows "\<not> present tmpl w"
proof
  assume "present tmpl w"
  then have "present tmpl (interfere w)" by (rule present_interfere)
  with assms show False
    by (auto simp: Get_def call_Get_def api_Get_def Let_def present_def split: option.splits)
qed

lemma Create_template:
  assumes "Create tmpl w = (err, nas', w')"
  shows "\<exists>ev. trace w' = trace w @ [ev] \<and> creates_template tmpl ev \<and> holds_template tmpl nas' w' \<and>
              present tmpl w'"
proof -
  obtain res w1 where c: "call_Create w tmpl = (res, w1)" by (cases "call_Create w tmpl")
  from trace_call_Create[OF c] have t: "trace w1 = trace w @ [EvCreate tmpl res]" .
  let ?wi = "interfere w"
  show ?thesis
  proof (cases "lookup (objects ?wi) (Namespace tmpl) (Name tmpl)")
    case None
    let ?r' = "tmpl\<lparr>UID := Suc (revision ?wi), ResourceVersion := Suc (revision ?wi)\<rparr>"
    from None c have r: "res = Inr ?r'"
      "w1 = emit (EvCreate tmpl res) (?wi\<lparr>objects := objects ?wi @ [?r'],
            revision := Suc (revision ?wi), journal := journal ?wi @ [?r']\<rparr>)"
      by (auto simp: call_Create_def api_Create_def Let_def)
    with c assms have o: "err = None" "nas' = ?r'" "w' = w1" by (auto simp: Create_def)
    have "present tmpl w1"
      by (simp add: r(2) present_def lookup_snoc has_key_def split: option.splits)
    with o r t show ?thesis by (auto simp: holds_template_def has_key_def)
  next
    case (Some cur)
    with c have r: "res = Inl (StatusError AlreadyExists ''already exists'')"
      "w1 = emit (EvCreate tmpl res) ?wi"
      by (auto simp: call_Create_def api_Create_def Let_def)
    with c assms have o: "err = Some (StatusError AlreadyExists ''already exists'')" "nas' = tmpl" "w' = w1"
      by (auto simp: Create_def)
    from Some have "present tmpl w1" by (simp add: r(2) present_def)
    with o r t show ?thesis by (auto simp: holds_template_def has_key_def)
  qed
qed

lemma GetOrCreate_template:
  assumes "holds_template tmpl nas w" and "GetOrCreate nas w = (err, nas', w')"
  shows "\<exists>evs. trace w' = trace w @ evs \<and> list_all (creates_template tmpl) evs \<and>
               holds_template tmpl nas' w' \<and> (err = None \<longrightarrow> present tmpl w')"
proof -
  from assms(1) have k: "Namespace nas = Namespace tmpl" "Name nas = Name tmpl"
    by (auto simp: holds_template_def has_key_def)
  obtain e1 n1 w1 where g1: "Get nas w = (e1, n1, w1)" by (cases "Get nas w")
  from Get_template[OF assms(1) g1] obtain ev1 where
    t1: "trace w1 = trace w @ [ev1]" "\<not> is_create ev1" "holds_template tmpl n1 w1"
        "e1 \<noteq> None \<longrightarrow> n1 = nas" "e1 = None \<longrightarrow> present tmpl w1" by blast
  from t1(2) have c1: "creates_template tmpl ev1" by (cases ev1) (auto simp: is_create_def)
  show ?thesis
  proof (cases "\<exists>e. e1 = Some e \<and> IsNotFound e")
    case False
    with g1 assms(2) have "nas' = n1" "w' = w1" "err = e1" by (cases e1; auto simp: GetOrCreate_def)+
    with t1 c1 show ?thesis by auto
  next
    case True
    then obtain e where e: "e1 = Some e" "IsNotFound e" by blast
    with t1 have n1: "n1 = nas" by simp
    from Get_NotFound_absent[OF g1[unfolded e(1)] e(2) k] have "\<not> present tmpl w" .
    with assms(1) have nas: "nas = tmpl" by (auto simp: holds_template_def)
    obtain e2 n2 w2 where g2: "Create tmpl w1 = (e2, n2, w2)" by (cases "Create tmpl w1")
    from Create_template[OF g2] obtain ev2 where
      t2: "trace w2 = trace w1 @ [ev2]" "creates_template tmpl ev2" "holds_template tmpl n2 w2"
          "present tmpl w2" by blast
    show ?thesis
    proof (cases "\<exists>e'. e2 = Some e' \<and> IsAlreadyExists e'")
      case False
      with g1 g2 e n1 nas assms(2) have "nas' = n2" "w' = w2"
        by (cases e2; auto simp: GetOrCreate_def)+
      with t1 t2 c1 show ?thesis by auto
    next
      case True
      with g1 g2 e n1 nas assms(2) have g3: "Get n2 w2 = (err, nas', w')"
        by (auto simp: GetOrCreate_def)
      from Get_template[OF t2(3) g3] obtain ev3 where
        t3: "trace w' = trace w2 @ [ev3]" "\<not> is_create ev3" "holds_template tmpl nas' w'"
            "err = None \<longrightarrow> present tmpl w'" by blast
      from t3(2) have "creates_template tmpl ev3" by (cases ev3) (auto simp: is_create_def)
      with t1 t2 t3 c1 show ?thesis by auto
    qed
  qed
qed

lemma UpdateStatus_template:
  assumes "holds_template tmpl nas w" and "present tmpl w" and "UpdateStatus nas st w = (err, nas', w')"
  shows "\<exists>ev. trace w' = trace w @ [ev] \<and> creates_template tmpl ev \<and> holds_template tmpl nas' w'"
proof -
  let ?r = "nas\<lparr>Status := st\<rparr>"
  obtain res w1 where c: "call_Update w ?r = (res, w1)" by (cases "call_Update w ?r")
  from trace_call_Update[OF c] have t: "trace w1 = trace w @ [EvUpdate ?r res]" .
  from c have w1: "w1 = emit (EvUpdate ?r res) (snd (api_Update (interfere w) ?r))"
    and res: "res = fst (api_Update (interfere w) ?r)"
    by (auto simp: call_Update_def Let_def split: prod.splits)
  have p: "present tmpl w1"
    using present_api_Update[OF present_interfere[OF assms(2)]] by (simp add: w1)
  from assms(1) have k: "has_key (Namespace tmpl) (Name tmpl) nas" by (simp add: holds_template_def)
  have "has_key (Namespace tmpl) (Name tmpl) nas'"
  proof (cases res)
    case (Inl e)
    with c assms(3) k show ?thesis by (auto simp: UpdateStatus_def)
  next
    case (Inr r')
    with c assms(3) have "nas' = r'" by (auto simp: UpdateStatus_def)
    moreover from Inr res k have "has_key (Namespace tmpl) (Name tmpl) r'"
      by (auto simp: api_Update_def Let_def has_key_def split: option.splits if_splits)
    ultimately show ?thesis by simp
  qed
  moreover from c assms(3) have "w' = w1" by (cases res) (auto simp: UpdateStatus_def)
  ultimately show ?thesis using t p by (auto simp: holds_template_def)
qed


lemma attempt_template:
  assumes "holds_template tmpl nas w" and "SetStatus_attempt st (nas, w) = (err, nas', w')"
  shows "\<exists>evs. trace w' = trace w @ evs \<and> list_all (creates_template tmpl) evs \<and>
               holds_template tmpl nas' w'"
proof -
  obtain e1 n1 w1 where g: "GetOrCreate nas w = (e1, n1, w1)" by (cases "GetOrCreate nas w")
  from GetOrCreate_template[OF assms(1) g] obtain evs where
    t1: "trace w1 = trace w @ evs" "list_all (creates_template tmpl) evs" "holds_template tmpl n1 w1"
        "e1 = None \<longrightarrow> present tmpl w1" by blast
  show ?thesis
  proof (cases e1)
    case (Some e)
    with g assms(2) t1 show ?thesis by (auto simp: SetStatus_attempt_def)
  next
    case None
    with g assms(2) have u: "UpdateStatus n1 st w1 = (err, nas', w')"
      by (simp add: SetStatus_attempt_def)
    from None t1 have "present tmpl w1" by simp
    from UpdateStatus_template[OF t1(3) this u] obtain ev where
      "trace w' = trace w1 @ [ev]" "creates_template tmpl ev" "holds_template tmpl nas' w'" by blast
    with t1 show ?thesis by auto
  qed
qed

lemma Retry_template:
  "holds_template tmpl nas w \<Longrightarrow>
   RetryOnConflict n (SetStatus_attempt st) lastErr (nas, w) = (err, nas', w') \<Longrightarrow>
   \<exists>evs. trace w' = trace w @ evs \<and> list_all (creates_template tmpl) evs"
proof (induction n arbitrary: lastErr nas w)
  case 0
  then show ?case by auto
next
  case (Suc n)
  obtain e1 n1 w1 where a: "SetStatus_attempt st (nas, w) = (e1, n1, w1)"
    by (cases "SetStatus_attempt st (nas, w)")
  from attempt_template[OF Suc.prems(1) a] obtain evs1 where
    t1: "trace w1 = trace w @ evs1" "list_all (creates_template tmpl) evs1" "holds_template tmpl n1 w1"
    by blast
  show ?case
  proof (cases "\<exists>e. e1 = Some e \<and> IsConflict e")
    case False
    with a Suc.prems(2) t1 show ?thesis by (cases e1) auto
  next
    case True
    then obtain e where e: "e1 = Some e" "IsConflict e" by blast
    with a Suc.prems(2) have "RetryOnConflict n (SetStatus_attempt st) (Some e) (n1, w1) = (err, nas', w')"
      by simp
    from Suc.IH[OF t1(3) this] obtain evs2 where
      "trace w' = trace w1 @ evs2" "list_all (creates_template tmpl) evs2" by blast
    with t1 show ?thesis by auto
  qed
qed

lemma SetStatus_template:
  "\<exists>evs. trace (snd (SetStatus config w)) = trace w @ evs \<and>
         list_all (creates_template (nascrd config)) evs"
proof -
  obtain err nas' w' where r: "RetryOnConflict DefaultRetry_Steps
      (SetStatus_attempt (status (flags config))) None (nascrd config, w) = (err, nas', w')"
    by (metis prod_cases3)
  have "holds_template (nascrd config) (nascrd config) w"
    by (simp add: holds_template_def has_key_def)
  from Retry_template[OF this r] r show ?thesis by (simp add: SetStatus_def)
qed

lemma not_create_template: "\<not> is_create ev \<Longrightarrow> creates_template tmpl ev"
  by (cases ev) (auto simp: is_create_def)

lemma GetClientsetConfig_world:
  "GetClientsetConfig f w = (res, f', w') \<Longrightarrow> \<exists>ev. w' = emit ev w \<and> \<not> is_create ev"
  by (auto simp: GetClientsetConfig_def Let_def is_create_def split: sum.splits if_splits)

lemma Nodes_Get_world:
  "Nodes_Get w n = (res, w') \<Longrightarrow>
   w' = emit (EvGetNode n) w \<and> (\<forall>uid. res = Inr uid \<longrightarrow> nodes w n = Some uid)"
  by (auto simp: Nodes_Get_def Let_def split: if_splits option.splits)

lemma RunE_template:
  "\<exists>evs. trace (snd (RunE f w)) = trace w @ evs \<and>
     (list_all (\<lambda>ev. \<not> is_create ev) evs \<or>
      (\<exists>uid. nodes w (Getenv (environ w) ''NODE_NAME'') = Some uid \<and>
         list_all (creates_template
            (node_record (Getenv (environ w) ''NODE_NAME'') (Getenv (environ w) ''POD_NAMESPACE'') uid)) evs))"
proof (cases "ValidateFlags f")
  case (Inl e)
  then show ?thesis by (simp add: RunE_def)
next
  case (Inr f1)
  obtain res f2 w1 where g: "GetClientsetConfig f1 w = (res, f2, w1)"
    by (cases "GetClientsetConfig f1 w")
  from GetClientsetConfig_world[OF g] obtain ev where w1: "w1 = emit ev w" "\<not> is_create ev" by blast
  show ?thesis
  proof (cases res)
    case (Inl e)
    with Inr g w1 show ?thesis by (simp add: RunE_def emit_def)
  next
    case cs: (Inr csconfig)
    show ?thesis
    proof (cases "coreNewForConfig w1 csconfig")
      case (Some e)
      with Inr g cs w1 show ?thesis by (simp add: RunE_def emit_def is_create_def)
    next
      case core: None
      show ?thesis
      proof (cases "exampleNewForConfig w1 csconfig")
        case (Some e)
        with Inr g cs core w1 show ?thesis by (simp add: RunE_def emit_def is_create_def)
      next
        case ex: None
        let ?w2 = "emit EvNewExampleClient (emit EvNewCoreClient w1)"
        let ?n = "Getenv (environ w) ''NODE_NAME''"
        let ?ns = "Getenv (environ w) ''POD_NAMESPACE''"
        have env: "environ ?w2 = environ w" "nodes ?w2 = nodes w" by (simp_all add: w1)
        have t2: "trace ?w2 = trace w @ [ev, EvNewCoreClient, EvNewExampleClient]"
          by (simp add: w1 emit_def)
        obtain nres w3 where ng: "Nodes_Get ?w2 ?n = (nres, w3)" by (cases "Nodes_Get ?w2 ?n")
        from Nodes_Get_world[OF ng] have w3: "w3 = emit (EvGetNode ?n) ?w2"
          "\<forall>uid. nres = Inr uid \<longrightarrow> nodes w ?n = Some uid" by (auto simp: w1(1))
        have t3: "trace w3 = trace w @ [ev, EvNewCoreClient, EvNewExampleClient, EvGetNode ?n]"
          using t2 by (simp add: w3 emit_def)
        show ?thesis
        proof (cases nres)
          case (Inl e)
          with Inr g cs core ex ng env t3 w1 show ?thesis
            by (simp add: RunE_def Let_def is_create_def)
        next
          case (Inr uid)
          let ?config = "\<lparr>flags = f2, nascrd = node_record ?n ?ns uid\<rparr>"
          from Inr \<open>ValidateFlags f = Inr f1\<close> g cs core ex ng env
          have r: "RunE f w = SetStatus ?config w3"
            by (simp add: RunE_def Let_def NewNodeAllocationState_def node_record_def)
          from SetStatus_template[of ?config w3] obtain evs where
            s: "trace (snd (SetStatus ?config w3)) = trace w3 @ evs"
            "list_all (creates_template (node_record ?n ?ns uid)) evs" by auto
          let ?evs = "[ev, EvNewCoreClient, EvNewExampleClient, EvGetNode ?n] @ evs"
          from w1(2) have "creates_template (node_record ?n ?ns uid) ev"
            by (rule not_create_template)
          with s(2) have "list_all (creates_template (node_record ?n ?ns uid)) ?evs" by simp
          moreover from r s(1) t3 have "trace (snd (RunE f w)) = trace w @ ?evs" by simp
          moreover from Inr w3(2) have "nodes w ?n = Some uid" by simp
          ultimately show ?thesis by blast
        qed
      qed
    qed
  qed
qed

lemma Get_fetched:
  assumes "Get nas w = (err, nas', w')"
  shows "\<exists>ev. trace w' = trace w @ [ev] \<and> written_record ev = None \<and>
              (err = None \<longrightarrow> fetched_record ev = Some nas')"
proof -
  obtain res w1 where c: "call_Get w (Namespace nas) (Name nas) = (res, w1)"
    by (cases "call_Get w (Namespace nas) (Name nas)")
  from trace_call_Get[OF c] assms c show ?thesis
    by (cases res) (auto simp: Get_def)
qed

lemma Create_fetched:
  assumes "Create nas w = (err, nas', w')"
  shows "\<exists>ev. trace w' = trace w @ [ev] \<and> written_record ev = None \<and>
              (err = None \<longrightarrow> fetched_record ev = Some nas')"
proof -
  obtain res w1 where c: "call_Create w nas = (res, w1)"
    by (cases "call_Create w nas")
  from trace_call_Create[OF c] assms c show ?thesis
    by (cases res) (auto simp: Create_def)
qed

lemma GetOrCreate_fetched:
  assumes "GetOrCreate nas w = (err, nas', w')"
  shows "\<exists>evs. trace w' = trace w @ evs \<and> evs \<noteq> [] \<and>
               list_all (\<lambda>ev. written_record ev = None) evs \<and>
               (err = None \<longrightarrow> fetched_record (last evs) = Some nas')"
proof -
  obtain e1 n1 w1 where g1: "Get nas w = (e1, n1, w1)" by (cases "Get nas w")
  from Get_fetched[OF g1] obtain ev1 where
    t1: "trace w1 = trace w @ [ev1]" "written_record ev1 = None"
        "e1 = None \<longrightarrow> fetched_record ev1 = Some n1" by blast
  show ?thesis
  proof (cases "\<exists>e. e1 = Some e \<and> IsNotFound e")
    case False
    with g1 assms have "nas' = n1" "w' = w1" "err = e1"
      by (cases e1; auto simp: GetOrCreate_def)+
    with t1 show ?thesis by auto
  next
    case True
    then obtain e where e: "e1 = Some e" "IsNotFound e" by blast
    obtain e2 n2 w2 where g2: "Create n1 w1 = (e2, n2, w2)" by (cases "Create n1 w1")
    from Create_fetched[OF g2] obtain ev2 where
      t2: "trace w2 = trace w1 @ [ev2]" "written_record ev2 = None"
          "e2 = None \<longrightarrow> fetched_record ev2 = Some n2" by blast
    show ?thesis
    proof (cases "\<exists>e'. e2 = Some e' \<and> IsAlreadyExists e'")
      case False
      with g1 g2 e assms have "nas' = n2" "w' = w2" "err = e2"
        by (cases e2; auto simp: GetOrCreate_def)+
      with t1 t2 show ?thesis by auto
    next
      case True
      with g1 g2 e assms have g3: "Get n2 w2 = (err, nas', w')"
        by (auto simp: GetOrCreate_def)
      from Get_fetched[OF g3] obtain ev3 where
        "trace w' = trace w2 @ [ev3]" "written_record ev3 = None"
        "err = None \<longrightarrow> fetched_record ev3 = Some nas'" by blast
      with t1 t2 show ?thesis by auto
    qed
  qed
qed

lemma writes_back_no_write:
  "list_all (\<lambda>ev. written_record ev = None) evs \<Longrightarrow> writes_back p evs"
  by (induction evs arbitrary: p) auto

lemma writes_back_append:
  "writes_back p xs \<Longrightarrow> writes_back (if xs = [] then p else Some (last xs)) ys \<Longrightarrow>
   writes_back p (xs @ ys)"
proof (induction xs arbitrary: p)
  case Nil
  then show ?case by simp
next
  case (Cons a xs)
  show ?case
  proof (cases "xs = []")
    case True
    with Cons.prems show ?thesis by simp
  next
    case False
    with Cons.prems Cons.IH[of "Some a"] show ?thesis by simp
  qed
qed

lemma writes_back_None_any: "writes_back None evs \<Longrightarrow> writes_back p evs"
  by (cases evs) (auto split: option.splits)

lemma attempt_writes_back:
  assumes "SetStatus_attempt st (nas, w) = (err, nas', w')"
  shows "\<exists>evs. trace w' = trace w @ evs \<and> writes_back None evs"
proof -
  obtain e1 n1 w1 where g: "GetOrCreate nas w = (e1, n1, w1)" by (cases "GetOrCreate nas w")
  from GetOrCreate_fetched[OF g] obtain evs where t1: "trace w1 = trace w @ evs" "evs \<noteq> []"
     "list_all (\<lambda>ev. written_record ev = None) evs"
     "e1 = None \<longrightarrow> fetched_record (last evs) = Some n1" by blast
  show ?thesis
  proof (cases e1)
    case (Some e)
    with g assms t1 show ?thesis by (auto simp: SetStatus_attempt_def writes_back_no_write)
  next
    case None
    with g assms have u: "UpdateStatus n1 st w1 = (err, nas', w')" by (simp add: SetStatus_attempt_def)
    obtain res w2 where c: "call_Update w1 (n1\<lparr>Status := st\<rparr>) = (res, w2)"
      by (cases "call_Update w1 (n1\<lparr>Status := st\<rparr>)")
    from u c have "w' = w2" by (cases res) (auto simp: UpdateStatus_def)
    with trace_call_Update[OF c] have t2: "trace w' = trace w1 @ [EvUpdate (n1\<lparr>Status := st\<rparr>) res]" by simp
    have "writes_back None (evs @ [EvUpdate (n1\<lparr>Status := st\<rparr>) res])"
      using t1 None by (intro writes_back_append) (auto simp: writes_back_no_write)
    with t1 t2 show ?thesis by auto
  qed
qed

lemma Retry_writes_back:
  "RetryOnConflict n (SetStatus_attempt st) lastErr (nas, w) = (err, nas', w') \<Longrightarrow>
   \<exists>evs. trace w' = trace w @ evs \<and> writes_back None evs"
proof (induction n arbitrary: lastErr nas w)
  case 0
  then show ?case by auto
next
  case (Suc n)
  obtain e1 n1 w1 where a: "SetStatus_attempt st (nas, w) = (e1, n1, w1)"
    by (cases "SetStatus_attempt st (nas, w)")
  from attempt_writes_back[OF a] obtain evs1 where t1: "trace w1 = trace w @ evs1" "writes_back None evs1" by blast
  show ?case
  proof (cases "\<exists>e. e1 = Some e \<and> IsConflict e")
    case False
    with a Suc.prems t1 show ?thesis by (cases e1) auto
  next
    case True
    then obtain e where e: "e1 = Some e" "IsConflict e" by blast
    with a Suc.prems have "RetryOnConflict n (SetStatus_attempt st) (Some e) (n1, w1) = (err, nas', w')"
      by simp
    from Suc.IH[OF this] obtain evs2 where t2: "trace w' = trace w1 @ evs2" "writes_back None evs2" by blast
    have "writes_back None (evs1 @ evs2)"
      using t1 t2 by (intro writes_back_append) (auto intro: writes_back_None_any)
    with t1 t2 show ?thesis by auto
  qed
qed

lemma SetStatus_writes_back:
  "\<exists>evs. trace (snd (SetStatus config w)) = trace w @ evs \<and> writes_back None evs"
proof -
  obtain err nas' w' where r: "RetryOnConflict DefaultRetry_Steps
      (SetStatus_attempt (status (flags config))) None (nascrd config, w) = (err, nas', w')"
    by (metis prod_cases3)
  from Retry_writes_back[OF r] r show ?thesis by (simp add: SetStatus_def)
qed

lemma GetClientsetConfig_emits:
  "GetClientsetConfig f w = (res, f', w') \<Longrightarrow> \<exists>ev. w' = emit ev w \<and> written_record ev = None"
  by (auto simp: GetClientsetConfig_def Let_def split: sum.splits if_splits)

lemma RunE_writes_back:
  "writes_back None (drop (length (trace w)) (trace (snd (RunE f w))))"
proof (cases "ValidateFlags f")
  case (Inl e)
  then show ?thesis by (simp add: RunE_def)
next
  case (Inr f1)
  obtain res f2 w1 where g: "GetClientsetConfig f1 w = (res, f2, w1)"
    by (cases "GetClientsetConfig f1 w")
  from GetClientsetConfig_emits[OF g] obtain ev where w1: "w1 = emit ev w" "written_record ev = None"
    by blast
  show ?thesis
  proof (cases res)
    case (Inl e)
    with Inr g w1 show ?thesis by (simp add: RunE_def emit_def)
  next
    case cs: (Inr csconfig)
    show ?thesis
    proof (cases "coreNewForConfig w1 csconfig")
      case (Some e)
      with Inr g cs w1 show ?thesis by (simp add: RunE_def emit_def)
    next
      case core: None
      show ?thesis
      proof (cases "exampleNewForConfig w1 csconfig")
        case (Some e)
        with Inr g cs core w1 show ?thesis by (simp add: RunE_def emit_def)
      next
        case ex: None
        let ?w2 = "emit EvNewExampleClient (emit EvNewCoreClient w1)"
        let ?n = "Getenv (environ ?w2) ''NODE_NAME''"
        obtain nres w3 where ng: "Nodes_Get ?w2 ?n = (nres, w3)" by (cases "Nodes_Get ?w2 ?n")
        then have w3: "w3 = emit (EvGetNode ?n) ?w2"
          by (auto simp: Nodes_Get_def Let_def split: if_splits option.splits)
        have t3: "trace w3 = trace w @ [ev, EvNewCoreClient, EvNewExampleClient, EvGetNode ?n]"
          by (simp add: w3 w1 emit_def)
        show ?thesis
        proof (cases nres)
          case (Inl e)
          with Inr g cs core ex ng t3 w1 show ?thesis
            by (simp add: RunE_def Let_def)
        next
          case (Inr uid)
          from Inr \<open>ValidateFlags f = Inr f1\<close> g cs core ex ng
          obtain config where r: "RunE f w = SetStatus config w3"
            by (simp add: RunE_def Let_def)
          from SetStatus_writes_back[of config w3] obtain evs where
            s: "trace (snd (SetStatus config w3)) = trace w3 @ evs" "writes_back None evs" by auto
          have "writes_back None ([ev, EvNewCoreClient, EvNewExampleClient, EvGetNode ?n] @ evs)"
            using s(2) w1(2) by (intro writes_back_append) (auto intro: writes_back_None_any)
          with r s(1) t3 show ?thesis by simp
        qed
      qed
    qed
  qed
qed

lemma create_sends_node_record:
  assumes "EvCreate r res \<in> set (drop (length (trace w)) (trace (snd (RunE f w))))"
  shows "\<exists>uid. nodes w (Getenv (environ w) ''NODE_NAME'') = Some uid \<and>
           Name r = Getenv (environ w) ''NODE_NAME'' \<and>
           Namespace r = Getenv (environ w) ''POD_NAMESPACE'' \<and>
           OwnerReferences r = [\<lparr>APIVersion = ''v1'', Kind = ''Node'',
                                  OwnerName = Getenv (environ w) ''NODE_NAME'', OwnerUID = uid\<rparr>] \<and>
           Status r = [] \<and>
           (\<forall>r'. res = Inr r' \<longrightarrow> OwnerReferences r' = OwnerReferences r \<and> Status r' = [] \<and>
                  Name r' = Name r \<and> Namespace r' = Namespace r)"
proof -
  from RunE_template[of f w] obtain evs where
    t: "trace (snd (RunE f w)) = trace w @ evs"
    and c: "list_all (\<lambda>ev. \<not> is_create ev) evs \<or>
      (\<exists>uid. nodes w (Getenv (environ w) ''NODE_NAME'') = Some uid \<and>
         list_all (creates_template
            (node_record (Getenv (environ w) ''NODE_NAME'') (Getenv (environ w) ''POD_NAMESPACE'') uid)) evs)"
    by blast
  from assms t have m: "EvCreate r res \<in> set evs" by simp
  from c show ?thesis
  proof
    assume "list_all (\<lambda>ev. \<not> is_create ev) evs"
    with m have "\<not> is_create (EvCreate r res)" by (auto simp: list_all_iff)
    then show ?thesis by (simp add: is_create_def)
  next
    assume "\<exists>uid. nodes w (Getenv (environ w) ''NODE_NAME'') = Some uid \<and>
         list_all (creates_template
            (node_record (Getenv (environ w) ''NODE_NAME'') (Getenv (environ w) ''POD_NAMESPACE'') uid)) evs"
    then obtain uid where u: "nodes w (Getenv (environ w) ''NODE_NAME'') = Some uid"
      "list_all (creates_template
            (node_record (Getenv (environ w) ''NODE_NAME'') (Getenv (environ w) ''POD_NAMESPACE'') uid)) evs"
      by blast
    with m have ct: "creates_template
        (node_record (Getenv (environ w) ''NODE_NAME'') (Getenv (environ w) ''POD_NAMESPACE'') uid)
        (EvCreate r res)" by (auto simp: list_all_iff)
    show ?thesis
    proof (cases res)
      case (Inl e)
      with ct u show ?thesis by (auto simp: node_record_def)
    next
      case (Inr r')
      with ct have "r = node_record (Getenv (environ w) ''NODE_NAME'') (Getenv (environ w) ''POD_NAMESPACE'') uid"
        "r' = r\<lparr>UID := UID r', ResourceVersion := ResourceVersion r'\<rparr>" by auto
      then have "OwnerReferences r' = OwnerReferences r" "Status r' = Status r" "Name r' = Name r"
        "Namespace r' = Namespace r" "r = node_record (Getenv (environ w) ''NODE_NAME'') (Getenv (environ w) ''POD_NAMESPACE'') uid"
        by (metis NodeAllocationState.select_convs NodeAllocationState.surjective NodeAllocationState.update_convs)+
      with Inr u show ?thesis by (auto simp: node_record_def)
    qed
  qed
qed

text \<open>
  C7, as stated, fails in its last clause: the record of \<open>n1\<close> is stored with an owner
  reference to the UID \<open>uid-OLD\<close> while the node fetched in this run has the UID
  \<open>uid-1\<close>. The run creates nothing; it fetches the record and writes it back with the
  new status and the stale owner reference.
\<close>

theorem stale_owner_counterexample:
  "nodes stale_world ''n1'' = Some ''uid-1''
   \<and> fst (RunE \<lparr>kubeconfig = [], status = ''ready''\<rparr> stale_world) = None
   \<and> filter is_create (trace (snd (RunE \<lparr>kubeconfig = [], status = ''ready''\<rparr> stale_world))) = []
   \<and> drop 1 (journal (snd (RunE \<lparr>kubeconfig = [], status = ''ready''\<rparr> stale_world)))
        = [stale_record\<lparr>Status := ''Ready'', ResourceVersion := 2\<rparr>]
   \<and> OwnerReferences (stale_record\<lparr>Status := ''Ready'', ResourceVersion := 2\<rparr>)
        = [\<lparr>APIVersion = ''v1'', Kind = ''Node'', OwnerName = ''n1'', OwnerUID = ''uid-OLD''\<rparr>]"
  by code_simp

text \<open>
  C7, amended. Every create request that a run of \<open>RunE\<close> issues sends the record built
  for the node: named after \<open>NODE_NAME\<close> in namespace \<open>POD_NAMESPACE\<close>, its only owner
  reference of kind \<open>Node\<close> with the name \<open>NODE_NAME\<close> and the UID of the node object
  fetched in this run, and its status unset; the record stored on success has the same
  owner reference and an unset status. Every write request of the run sends the record
  just fetched with nothing but the status changed, so the owner references of a record
  that already exists are written back as they are stored.
\<close>

theorem owner_reference_on_create_and_write_back:
  "(EvCreate r res \<in> set (drop (length (trace w)) (trace (snd (RunE f w)))) \<longrightarrow>
      (\<exists>uid. nodes w (Getenv (environ w) ''NODE_NAME'') = Some uid \<and>
           Name r = Getenv (environ w) ''NODE_NAME'' \<and>
           Namespace r = Getenv (environ w) ''POD_NAMESPACE'' \<and>
           OwnerReferences r = [\<lparr>APIVersion = ''v1'', Kind = ''Node'',
                                  OwnerName = Getenv (environ w) ''NODE_NAME'', OwnerUID = uid\<rparr>] \<and>
           Status r = [] \<and>
           (\<forall>r'. res = Inr r' \<longrightarrow> OwnerReferences r' = OwnerReferences r \<and> Status r' = [] \<and>
                  Name r' = Name r \<and> Namespace r' = Namespace r)))
   \<and> writes_back None (drop (length (trace w)) (trace (snd (RunE f w))))"
  using create_sends_node_record[of r res w f] RunE_writes_back[of w f] by blast

theorem owner_reference_on_create_and_write_back_witness:
  "EvCreate (node_record ''n1'' ''ns'' ''uid-1'')
       (Inr ((node_record ''n1'' ''ns'' ''uid-1'')\<lparr>UID := 1, ResourceVersion := 1\<rparr>))
     \<in> set (trace (snd (RunE \<lparr>kubeconfig = [], status = ''ready''\<rparr> example_world)))
   \<and> nodes example_world (Getenv (environ example_world) ''NODE_NAME'') = Some ''uid-1''
   \<and> OwnerReferences (node_record ''n1'' ''ns'' ''uid-1'')
        = [\<lparr>APIVersion = ''v1'', Kind = ''Node'', OwnerName = ''n1'', OwnerUID = ''uid-1''\<rparr>]
   \<and> Status (node_record ''n1'' ''ns'' ''uid-1'') = []
   \<and> writes_back None (trace (snd (RunE \<lparr>kubeconfig = [], status = ''ready''\<rparr> stale_world)))
   \<and> map written_record (trace (snd (RunE \<lparr>kubeconfig = [], status = ''ready''\<rparr> stale_world)))
        = [None, None, None, None, None, Some (stale_record\<lparr>Status := ''Ready''\<rparr>)]"
proof -
  let ?r = "node_record ''n1'' ''ns'' ''uid-1''"
  let ?res = "Inr (?r\<lparr>UID := 1, ResourceVersion := 1\<rparr>) :: error + NodeAllocationState"
  let ?f = "\<lparr>kubeconfig = [], status = ''ready''\<rparr>"
  have m: "EvCreate ?r ?res \<in> set (trace (snd (RunE ?f example_world)))"
    by code_simp
  have t: "trace example_world = []" "trace stale_world = []"
    by (simp_all add: example_world_def stale_world_def)
  from m t have h: "EvCreate ?r ?res \<in> set (drop (length (trace example_world))
      (trace (snd (RunE ?f example_world))))"
    by simp
  have e: "Getenv (environ example_world) ''NODE_NAME'' = ''n1''" by code_simp
  have u: "map written_record (trace (snd (RunE ?f stale_world)))
        = [None, None, None, None, None, Some (stale_record\<lparr>Status := ''Ready''\<rparr>)]"
    by code_simp
  from owner_reference_on_create_and_write_back [of ?r ?res example_world ?f, THEN conjunct1,
         rule_format, OF h]
       owner_reference_on_create_and_write_back [of ?r ?res stale_world ?f, THEN conjunct2]
       e m t u
  show ?thesis by (auto simp: node_record_def)
qed

section \<open>The diagnostics endpoint of the controller\<close>

lemma split_slash_nonempty: "split_slash s \<noteq> []"
  by (induction s) (auto split: list.splits)

lemma split_slash_append: "split_slash (a @ CHR ''/'' # b) = split_slash a @ split_slash b"
proof (induction a)
  case Nil
  then show ?case by simp
next
  case (Cons c cs)
  then show ?case using split_slash_nonempty[of cs]
    by (cases "split_slash cs") auto
qed

lemma join_slash_snoc:
  "join_slash (S @ [x]) = (if S = [] then x else join_slash S @ CHR ''/'' # x)"
  by (induction S rule: join_slash.induct) auto

lemma path_Join_rooted:
  "path_Join (''/'' # p # rest) =
     CHR ''/'' # join_slash (foldl (clean_component True) []
        (split_slash (join_slash (''/'' # p # rest))))"
  by (simp add: path_Join_def path_Clean_def Let_def)

lemma path_Join_nonempty: "path_Join (''/'' # p # rest) \<noteq> []"
  by (simp add: path_Join_rooted)

lemma path_Join_one: "path_Join [''/'', p] = CHR ''/'' # join_slash (root_stack p)"
  by (simp add: path_Join_rooted root_stack_def)

lemma path_Join_two:
  assumes "x \<noteq> []" "x \<noteq> ''.''" "x \<noteq> ''..''" "split_slash x = [x]"
  shows "path_Join [''/'', p, x] = CHR ''/'' # join_slash (root_stack p @ [x])"
proof -
  have "join_slash [''/'', p, x] = (CHR ''/'' # CHR ''/'' # p) @ CHR ''/'' # x" by simp
  then have "split_slash (join_slash [''/'', p, x]) = split_slash (CHR ''/'' # CHR ''/'' # p) @ [x]"
    using split_slash_append[of "CHR ''/'' # CHR ''/'' # p" x] assms(4) by simp
  then show ?thesis using assms(1-3)
    by (simp add: path_Join_rooted root_stack_def clean_component_def)
qed

lemma pprof_routes_eq:
  "pprof_routes p =
     [(CHR ''/'' # join_slash (root_stack p), PprofIndex),
      (CHR ''/'' # join_slash (root_stack p @ [''cmdline'']), PprofCmdline),
      (CHR ''/'' # join_slash (root_stack p @ [''profile'']), PprofProfile),
      (CHR ''/'' # join_slash (root_stack p @ [''symbol'']), PprofSymbol),
      (CHR ''/'' # join_slash (root_stack p @ [''trace'']), PprofTrace)]"
  by (simp add: pprof_routes_def path_Join_one path_Join_two)

lemma pprof_routes_distinct: "distinct (map fst (pprof_routes p))"
  by (simp add: pprof_routes_eq join_slash_snoc)

lemma pprof_routes_nonempty: "[] \<notin> set (map fst (pprof_routes p))"
  by (simp add: pprof_routes_eq)

lemma metrics_routes_nonempty: "[] \<notin> set (map fst (metrics_routes m))"
  using path_Join_nonempty[of m "[]"] by (auto simp: metrics_routes_def)

lemma mux_HandleAll_ok:
  "distinct (map fst routes) \<Longrightarrow> [] \<notin> set (map fst routes) \<Longrightarrow>
   set (map fst routes) \<inter> set (map fst mux) = {} \<Longrightarrow>
   mux_HandleAll mux routes = Inr (mux @ routes)"
proof (induction routes arbitrary: mux)
  case Nil
  then show ?case by simp
next
  case (Cons a routes)
  obtain pat h where a: "a = (pat, h)" by (cases a)
  from Cons.prems a have ok: "mux_Handle mux pat h = Inr (mux @ [(pat, h)])"
    by (auto simp: mux_Handle_def)
  from Cons.prems a have "set (map fst routes) \<inter> set (map fst (mux @ [(pat, h)])) = {}"
    by auto
  with Cons.IH[of "mux @ [(pat, h)]"] Cons.prems have
    "mux_HandleAll (mux @ [(pat, h)]) routes = Inr ((mux @ [(pat, h)]) @ routes)" by simp
  with ok a show ?case by simp
qed

lemma registered_expected_metrics:
  "registered (expected_mux f) MetricsHandler = (metricsPath f \<noteq> [])"
  by (cases "metricsPath f = []"; cases "profilePath f = []";
      simp add: registered_def expected_mux_def metrics_routes_def pprof_routes_def)

lemma registered_expected_pprof:
  "registered (expected_mux f) PprofIndex = (profilePath f \<noteq> [])"
  "registered (expected_mux f) PprofCmdline = (profilePath f \<noteq> [])"
  "registered (expected_mux f) PprofProfile = (profilePath f \<noteq> [])"
  "registered (expected_mux f) PprofSymbol = (profilePath f \<noteq> [])"
  "registered (expected_mux f) PprofTrace = (profilePath f \<noteq> [])"
  by (cases "metricsPath f = []"; cases "profilePath f = []";
      simp add: registered_def expected_mux_def metrics_routes_def pprof_routes_def)+

lemma SetupHTTPEndpoint_ok:
  assumes "metricsPath f = [] \<or> profilePath f = [] \<or>
           path_Join [''/'', metricsPath f] \<notin> fst ` set (pprof_routes (profilePath f))"
  shows "SetupHTTPEndpoint f [] w =
     Inr (case netListen w (httpEndpoint f) of
            Some e \<Rightarrow> (Some (Errorf ''listen on HTTP endpoint: '' e), expected_mux f, w)
          | None \<Rightarrow> (None, expected_mux f, w\<lparr>listeners := listeners w @ [httpEndpoint f]\<rparr>))"
proof -
  let ?m1 = "if metricsPath f \<noteq> [] then metrics_routes (metricsPath f) else []"
  have 1: "(if metricsPath f \<noteq> [] then mux_HandleAll [] (metrics_routes (metricsPath f)) else Inr [])
             = Inr ?m1"
    using mux_HandleAll_ok[of "metrics_routes (metricsPath f)" "[]"] metrics_routes_nonempty[of "metricsPath f"]
    by (simp add: metrics_routes_def)
  have "profilePath f \<noteq> [] \<Longrightarrow> set (map fst (pprof_routes (profilePath f))) \<inter> set (map fst ?m1) = {}"
    using assms by (force simp: metrics_routes_def)
  then have 2: "(if profilePath f \<noteq> [] then mux_HandleAll ?m1 (pprof_routes (profilePath f)) else Inr ?m1)
             = Inr (expected_mux f)"
    using mux_HandleAll_ok[OF pprof_routes_distinct pprof_routes_nonempty, of "profilePath f" ?m1]
    by (simp add: expected_mux_def)
  show ?thesis
    unfolding SetupHTTPEndpoint_def 1 using 2
    by (simp split: option.splits)
qed

lemma GetClientsetConfig_controller_world:
  "GetClientsetConfig_controller f w = (res, f', w') \<Longrightarrow>
   listeners w' = listeners w \<and> netListen w' = netListen w \<and> httpEndpoint f' = httpEndpoint f \<and>
   metricsPath f' = metricsPath f \<and> profilePath f' = profilePath f"
  by (auto simp: GetClientsetConfig_controller_def Let_def emit_def split: sum.splits if_splits)

lemma RunE_controller_disabled:
  assumes "httpEndpoint f = []"
  shows "fst (snd (RunE_controller f w)) = [] \<and>
         listeners (snd (snd (RunE_controller f w))) = listeners w"
proof -
  obtain res f1 w1 where g: "GetClientsetConfig_controller f w = (res, f1, w1)"
    by (cases "GetClientsetConfig_controller f w")
  from GetClientsetConfig_controller_world[OF g] assms
  have "listeners w1 = listeners w" "httpEndpoint f1 = []" by auto
  with g show ?thesis
    by (auto simp: RunE_controller_def Let_def emit_def split: sum.splits option.splits)
qed

lemma expected_mux_cong:
  "metricsPath f' = metricsPath f \<Longrightarrow> profilePath f' = profilePath f \<Longrightarrow>
   expected_mux f' = expected_mux f"
  by (simp add: expected_mux_def)

lemma RunE_controller_running:
  assumes "httpEndpoint f \<noteq> []"
      and "metricsPath f = [] \<or> profilePath f = [] \<or>
           path_Join [''/'', metricsPath f] \<notin> fst ` set (pprof_routes (profilePath f))"
      and "fst (RunE_controller f w) = Running"
  shows "fst (snd (RunE_controller f w)) = expected_mux f \<and>
         listeners (snd (snd (RunE_controller f w))) = listeners w @ [httpEndpoint f]"
proof -
  obtain res f1 w1 where g: "GetClientsetConfig_controller f w = (res, f1, w1)"
    by (cases "GetClientsetConfig_controller f w")
  from GetClientsetConfig_controller_world[OF g]
  have k: "listeners w1 = listeners w" "netListen w1 = netListen w" "httpEndpoint f1 = httpEndpoint f"
    "metricsPath f1 = metricsPath f" "profilePath f1 = profilePath f" by auto
  let ?w2 = "emit EvNewExampleClient (emit EvNewCoreClient w1)"
  have w2: "listeners ?w2 = listeners w" "netListen ?w2 = netListen w"
    by (simp_all add: emit_def k)
  from assms(2) k have nc: "metricsPath f1 = [] \<or> profilePath f1 = [] \<or>
           path_Join [''/'', metricsPath f1] \<notin> fst ` set (pprof_routes (profilePath f1))" by simp
  note s = SetupHTTPEndpoint_ok[OF nc, of ?w2]
  have e: "expected_mux f1 = expected_mux f" using k by (intro expected_mux_cong)
  from assms(1,3) g s show ?thesis
    unfolding RunE_controller_def Let_def
    by (auto simp: k w2 e split: sum.splits option.splits if_splits)
qed

text \<open>
  C9, amended. With an empty listen address \<open>RunE\<close> of the controller registers no
  handler and opens no listener. \<open>SetupHTTPEndpoint\<close>, which runs when the address is
  non-empty, registers the metrics handler if and only if the metrics path is non-empty
  and the five profiling handlers if and only if the profiling path is non-empty,
  provided the metrics pattern is none of the profiling patterns when both paths are
  set; it then opens the listener unless \<open>net.Listen\<close> fails. When \<open>RunE\<close> reaches the
  controller's engine under these conditions, its multiplexer holds exactly these
  handlers and the listener is open.
\<close>

theorem diagnostics_endpoint:
  "(httpEndpoint f = [] \<longrightarrow>
      fst (snd (RunE_controller f w)) = [] \<and>
      listeners (snd (snd (RunE_controller f w))) = listeners w)
   \<and> (metricsPath f = [] \<or> profilePath f = [] \<or>
       path_Join [''/'', metricsPath f] \<notin> fst ` set (pprof_routes (profilePath f)) \<longrightarrow>
      (\<exists>err w'. SetupHTTPEndpoint f [] w = Inr (err, expected_mux f, w') \<and>
         (err = None \<longrightarrow> listeners w' = listeners w @ [httpEndpoint f]) \<and>
         (err \<noteq> None \<longrightarrow> listeners w' = listeners w)) \<and>
      registered (expected_mux f) MetricsHandler = (metricsPath f \<noteq> []) \<and>
      registered (expected_mux f) PprofIndex = (profilePath f \<noteq> []) \<and>
      registered (expected_mux f) PprofCmdline = (profilePath f \<noteq> []) \<and>
      registered (expected_mux f) PprofProfile = (profilePath f \<noteq> []) \<and>
      registered (expected_mux f) PprofSymbol = (profilePath f \<noteq> []) \<and>
      registered (expected_mux f) PprofTrace = (profilePath f \<noteq> []))
   \<and> (httpEndpoint f \<noteq> [] \<and>
       (metricsPath f = [] \<or> profilePath f = [] \<or>
        path_Join [''/'', metricsPath f] \<notin> fst ` set (pprof_routes (profilePath f))) \<and>
       fst (RunE_controller f w) = Running \<longrightarrow>
      fst (snd (RunE_controller f w)) = expected_mux f \<and>
      listeners (snd (snd (RunE_controller f w))) = listeners w @ [httpEndpoint f])"
proof (intro conjI impI)
  assume "httpEndpoint f = []"
  from RunE_controller_disabled[OF this]
  show "fst (snd (RunE_controller f w)) = []"
    and "listeners (snd (snd (RunE_controller f w))) = listeners w" by auto
next
  assume "metricsPath f = [] \<or> profilePath f = [] \<or>
       path_Join [''/'', metricsPath f] \<notin> fst ` set (pprof_routes (profilePath f))"
  from SetupHTTPEndpoint_ok[OF this, of w]
  show "\<exists>err w'. SetupHTTPEndpoint f [] w = Inr (err, expected_mux f, w') \<and>
         (err = None \<longrightarrow> listeners w' = listeners w @ [httpEndpoint f]) \<and>
         (err \<noteq> None \<longrightarrow> listeners w' = listeners w)"
    by (cases "netListen w (httpEndpoint f)") auto
next
  assume a: "httpEndpoint f \<noteq> [] \<and>
       (metricsPath f = [] \<or> profilePath f = [] \<or>
        path_Join [''/'', metricsPath f] \<notin> fst ` set (pprof_routes (profilePath f))) \<and>
       fst (RunE_controller f w) = Running"
  from RunE_controller_running[of f w] a
  show "fst (snd (RunE_controller f w)) = expected_mux f"
    and "listeners (snd (snd (RunE_controller f w))) = listeners w @ [httpEndpoint f]" by auto
qed (simp_all add: registered_expected_metrics registered_expected_pprof)

theorem diagnostics_endpoint_witness:
  "fst (snd (RunE_controller (diagnostics_flags\<lparr>httpEndpoint := []\<rparr>) example_world)) = []
   \<and> listeners (snd (snd (RunE_controller (diagnostics_flags\<lparr>httpEndpoint := []\<rparr>) example_world))) = []
   \<and> (case SetupHTTPEndpoint diagnostics_flags [] example_world of
         Inl panic \<Rightarrow> False
       | Inr (err, mux, w') \<Rightarrow>
           err = None \<and> listeners w' = ['':8080''] \<and>
           mux = [(''/metrics'', MetricsHandler), (''/debug/pprof'', PprofIndex),
                  (''/debug/pprof/cmdline'', PprofCmdline), (''/debug/pprof/profile'', PprofProfile),
                  (''/debug/pprof/symbol'', PprofSymbol), (''/debug/pprof/trace'', PprofTrace)])
   \<and> fst (RunE_controller diagnostics_flags example_world) = Running
   \<and> listeners (snd (snd (RunE_controller diagnostics_flags example_world))) = ['':8080'']
   \<and> registered (expected_mux (diagnostics_flags\<lparr>profilePath := []\<rparr>)) MetricsHandler
   \<and> \<not> registered (expected_mux (diagnostics_flags\<lparr>profilePath := []\<rparr>)) PprofIndex
   \<and> \<not> registered (expected_mux (diagnostics_flags\<lparr>metricsPath := []\<rparr>)) MetricsHandler
   \<and> registered (expected_mux (diagnostics_flags\<lparr>metricsPath := []\<rparr>)) PprofTrace"
proof -
  have a: "httpEndpoint (diagnostics_flags\<lparr>httpEndpoint := []\<rparr>) = []" by simp
  have b: "path_Join [''/'', metricsPath diagnostics_flags]
             \<notin> fst ` set (pprof_routes (profilePath diagnostics_flags))"
    by code_simp
  have c: "listeners example_world = []" "netListen example_world '':8080'' = None"
    "httpEndpoint diagnostics_flags = '':8080''"
    "expected_mux diagnostics_flags =
       [(''/metrics'', MetricsHandler), (''/debug/pprof'', PprofIndex),
        (''/debug/pprof/cmdline'', PprofCmdline), (''/debug/pprof/profile'', PprofProfile),
        (''/debug/pprof/symbol'', PprofSymbol), (''/debug/pprof/trace'', PprofTrace)]"
    by code_simp+
  have d: "metricsPath (diagnostics_flags\<lparr>profilePath := []\<rparr>) \<noteq> []"
    "profilePath (diagnostics_flags\<lparr>profilePath := []\<rparr>) = []"
    "metricsPath (diagnostics_flags\<lparr>metricsPath := []\<rparr>) = []"
    "profilePath (diagnostics_flags\<lparr>metricsPath := []\<rparr>) \<noteq> []"
    by code_simp+
  note t1 = diagnostics_endpoint [of "diagnostics_flags\<lparr>httpEndpoint := []\<rparr>" example_world,
      THEN conjunct1, rule_format, OF a]
  note t2 = diagnostics_endpoint [of diagnostics_flags example_world, THEN conjunct2,
      THEN conjunct1, rule_format, OF disjI2, OF disjI2, OF b]
  note t3 = diagnostics_endpoint [of "diagnostics_flags\<lparr>profilePath := []\<rparr>" example_world,
      THEN conjunct2, THEN conjunct1, rule_format, OF disjI2, OF disjI1, OF d(2)]
  note t4 = diagnostics_endpoint [of "diagnostics_flags\<lparr>metricsPath := []\<rparr>" example_world,
      THEN conjunct2, THEN conjunct1, rule_format, OF disjI1, OF d(3)]
  have r: "fst (RunE_controller diagnostics_flags example_world) = Running" by code_simp
  have n: "httpEndpoint diagnostics_flags \<noteq> []" by code_simp
  from diagnostics_endpoint [of diagnostics_flags example_world, THEN conjunct2, THEN conjunct2,
      rule_format, OF conjI, OF n, OF conjI, OF disjI2, OF disjI2, OF b r] c
  have t5: "listeners (snd (snd (RunE_controller diagnostics_flags example_world))) = ['':8080'']"
    by simp
  from t2 obtain err w' where
    s: "SetupHTTPEndpoint diagnostics_flags [] example_world = Inr (err, expected_mux diagnostics_flags, w')"
       "err = None \<longrightarrow> listeners w' = listeners example_world @ [httpEndpoint diagnostics_flags]"
    by blast
  have "err = None"
    using s(1) c(2,3) by (simp add: SetupHTTPEndpoint_def split: sum.splits if_splits)
  with s c t1 t3 t4 t5 r d show ?thesis by simp
qed

text \<open>
  C9, as stated, fails: with the listen address \<open>:8080\<close>, the metrics path \<open>/debug\<close> and
  the profiling path \<open>debug/\<close>, both non-empty, the metrics handler is registered under
  \<open>/debug\<close> and the registration of the first profiling handler under the same pattern
  panics: no profiling handler is registered and the controller does not start.
\<close>

theorem diagnostics_endpoint_counterexample:
  "httpEndpoint colliding_flags \<noteq> []
   \<and> metricsPath colliding_flags \<noteq> []
   \<and> profilePath colliding_flags \<noteq> []
   \<and> fst (RunE_controller colliding_flags example_world)
        = Panicked ''http: multiple registrations for /debug''
   \<and> mux_HandleAll [] (metrics_routes (metricsPath colliding_flags))
        = Inr [(''/debug'', MetricsHandler)]
   \<and> mux_Handle [(''/debug'', MetricsHandler)] (path_Join [''/'', profilePath colliding_flags]) PprofIndex
        = Inl ''http: multiple registrations for /debug''"
  by code_simp


end
